theory Spec2Isabelle
  imports Main "HOL-Library.Sublist"
begin

section \<open>Repository records and the two repository pages\<close>

text \<open>
  The server returns repositories as JSON objects. The repositories page declares the full
  interface; the chat page and the visualizer declare structural views of the same
  objects (\<open>id\<close>, \<open>name\<close>, \<open>status\<close>). One record carries all fields. The field \<open>id\<close>
  is named \<open>repo_id\<close> because \<open>id\<close> is the identity function of HOL.
\<close>

record Repository =
  repo_id :: int
  name :: string
  description :: "string option"
  url :: "string option"
  local_path :: "string option"
  status :: string
  indexed_files :: nat
  total_files :: nat
  languages :: "(string \<times> nat) list option"
  created_at :: string

text \<open>
  The outcome of an awaited request: the promise rejects (a network error), or a
  response arrives with its \<open>ok\<close> flag and a body; \<open>None\<close> as body stands for
  \<open>response.json()\<close> throwing.
\<close>

datatype 'a fetch_result = Rejected | Response bool "'a option"

subsection \<open>ReposPage: deleteRepo\<close>

record ReposPage =
  repos :: "Repository list"
  isLoading :: bool
  showCreateModal :: bool
  newRepoName :: string
  newRepoUrl :: string
  newRepoPath :: string
  error :: string
  isCreating :: bool
  deletingId :: "int option"

text \<open>
  \<open>deleteRepo\<close> is a closure of one render: the \<open>repos\<close> it filters is the list of that
  render, not the list in the state when the response arrives. The handler therefore runs
  in two steps with the state of the page in between. The click asks for confirmation and
  sets \<open>deletingId\<close>; what the closure holds while it awaits the response is a
  \<open>PendingDelete\<close>.
\<close>

record PendingDelete =
  captured_repos :: "Repository list"
  pending_id :: int

definition deleteRepo_click ::
  "bool \<Rightarrow> int \<Rightarrow> ReposPage \<Rightarrow> ReposPage \<times> PendingDelete option" where
  "deleteRepo_click confirmed repoId st =
     (if \<not> confirmed then (st, None)
      else (st\<lparr>deletingId := Some repoId\<rparr>,
            Some \<lparr>captured_repos = repos st, pending_id = repoId\<rparr>))"

text \<open>
  The response arrives in the state \<open>st\<close> of that moment. When it is ok the list of the
  state is overwritten by the captured list without the id; otherwise an alert is raised.
  The \<open>finally\<close> block clears \<open>deletingId\<close>. The body of a failed response is the
  optional \<open>detail\<close> text (\<open>data.detail || 'Failed to delete repository'\<close>: a missing or
  empty detail gives the default text); \<open>None\<close> as body is \<open>response.json()\<close> throwing.
  The result is the new page state and the alerts shown.
\<close>

definition deleteRepo_response ::
  "string option fetch_result \<Rightarrow> PendingDelete \<Rightarrow> ReposPage \<Rightarrow> ReposPage \<times> string list" where
  "deleteRepo_response response p st =
     (case response of
        Response ok body \<Rightarrow>
          (if ok then
             (st\<lparr>repos := filter (\<lambda>r. repo_id r \<noteq> pending_id p) (captured_repos p),
                 deletingId := None\<rparr>, [])
           else
             (case body of
                Some detail \<Rightarrow>
                  (st\<lparr>deletingId := None\<rparr>,
                   [case detail of
                      None \<Rightarrow> ''Failed to delete repository''
                    | Some d \<Rightarrow> if d = [] then ''Failed to delete repository'' else d])
              | None \<Rightarrow> (st\<lparr>deletingId := None\<rparr>, [''Network error. Please try again.''])))
      | Rejected \<Rightarrow> (st\<lparr>deletingId := None\<rparr>, [''Network error. Please try again.'']))"

text \<open>The handler when nothing else touches the page between the click and the response.\<close>

definition deleteRepo ::
  "bool \<Rightarrow> string option fetch_result \<Rightarrow> int \<Rightarrow> ReposPage \<Rightarrow> ReposPage \<times> string list" where
  "deleteRepo confirmed response repoId st =
     (case deleteRepo_click confirmed repoId st of
        (st1, None) \<Rightarrow> (st1, [])
      | (st1, Some p) \<Rightarrow> deleteRepo_response response p st1)"

subsection \<open>ChatPage: loadRepositories, the selector and what the page renders\<close>

record ChatPage =
  chat_repos :: "Repository list"
  selectedRepo :: "Repository option"

definition ChatPage_init :: ChatPage where
  "ChatPage_init = \<lparr>chat_repos = [], selectedRepo = None\<rparr>"

text \<open>
  \<open>loadRepositories\<close>: on an ok response the data is filtered to the repositories whose
  status is \<open>'ready'\<close>; the first of them, when there is one, becomes the selection. A
  response that is not ok changes nothing, and so does an exception (it is logged).
\<close>

definition loadRepositories :: "Repository list fetch_result \<Rightarrow> ChatPage \<Rightarrow> ChatPage" where
  "loadRepositories response st =
     (case response of
        Rejected \<Rightarrow> st
      | Response ok body \<Rightarrow>
          (if ok then
             (case body of
                None \<Rightarrow> st
              | Some data \<Rightarrow>
                  (let readyRepos = filter (\<lambda>r. status r = ''ready'') data;
                       st1 = st\<lparr>chat_repos := readyRepos\<rparr>
                   in (case readyRepos of
                         [] \<Rightarrow> st1
                       | r # _ \<Rightarrow> st1\<lparr>selectedRepo := Some r\<rparr>)))
           else st))"

text \<open>The \<open>onChange\<close> handler of the selector: \<open>repos.find\<close> by id, no change when absent.\<close>

definition selectRepo :: "int \<Rightarrow> ChatPage \<Rightarrow> ChatPage" where
  "selectRepo v st =
     (case find (\<lambda>r. repo_id r = v) (chat_repos st) of
        Some repo \<Rightarrow> st\<lparr>selectedRepo := Some repo\<rparr>
      | None \<Rightarrow> st)"

text \<open>
  The rendered page: a placeholder when no repository is listed; otherwise the selector
  (only with more than one repository) and a chat for the selected repository.
\<close>

datatype ChatView =
  NoIndexedRepositories
| ChatScreen (options: "Repository list") (chat_for: "Repository option")

definition ChatPage_render :: "ChatPage \<Rightarrow> ChatView" where
  "ChatPage_render st =
     (if length (chat_repos st) = 0 then NoIndexedRepositories
      else ChatScreen (if length (chat_repos st) > 1 then chat_repos st else [])
                      (selectedRepo st))"

datatype ChatPageEvent = Load "Repository list fetch_result" | Select int

fun ChatPage_step :: "ChatPage \<Rightarrow> ChatPageEvent \<Rightarrow> ChatPage" where
  "ChatPage_step st (Load response) = loadRepositories response st"
| "ChatPage_step st (Select v) = selectRepo v st"

definition ChatPage_run :: "ChatPageEvent list \<Rightarrow> ChatPage" where
  "ChatPage_run evs = foldl ChatPage_step ChatPage_init evs"

text \<open>The repositories a question can be sent for: those the rendered page shows.\<close>

definition offered :: "ChatPage \<Rightarrow> Repository set" where
  "offered st =
     (case ChatPage_render st of
        NoIndexedRepositories \<Rightarrow> {}
      | ChatScreen opts sel \<Rightarrow> set opts \<union> set_option sel)"

section \<open>Visualizer page\<close>

subsection \<open>Strings\<close>

text \<open>
  \<open>String.prototype.split\<close> with a one-character separator: the pieces between the
  separators, always at least one piece.
\<close>

fun split_char :: "char \<Rightarrow> string \<Rightarrow> string list" where
  "split_char c [] = [[]]"
| "split_char c (x # xs) =
     (if x = c then [] # split_char c xs
      else (case split_char c xs of
              p # ps \<Rightarrow> (x # p) # ps
            | [] \<Rightarrow> [[x]]))"

text \<open>
  \<open>toLowerCase\<close> on the code units that \<open>char\<close> has (0 to 255, read as Latin-1):
  \<open>A\<close> to \<open>Z\<close>, and the accented capitals 192 to 222 except the multiplication sign.
\<close>

definition to_lower_char :: "char \<Rightarrow> char" where
  "to_lower_char c =
     (let n = (of_char c :: nat)
      in if (65 \<le> n \<and> n \<le> 90) \<or> (192 \<le> n \<and> n \<le> 222 \<and> n \<noteq> 215)
         then char_of (n + 32) else c)"

definition toLowerCase :: "string \<Rightarrow> string" where
  "toLowerCase s = map to_lower_char s"

subsection \<open>getLanguageFromFile\<close>

definition extMap :: "(string \<times> string) list" where
  "extMap =
     [(''ts'', ''typescript''),
      (''tsx'', ''typescript''),
      (''js'', ''javascript''),
      (''jsx'', ''javascript''),
      (''py'', ''python''),
      (''rs'', ''rust''),
      (''go'', ''go''),
      (''java'', ''java''),
      (''css'', ''css''),
      (''html'', ''html''),
      (''json'', ''json''),
      (''md'', ''markdown'')]"

text \<open>
  \<open>extMap\<close> is an object literal, so \<open>extMap[key]\<close> also finds the members that every
  object inherits from \<open>Object.prototype\<close>. These are functions or objects: truthy, and
  not strings.
\<close>

definition object_prototype_members :: "string list" where
  "object_prototype_members =
     [''constructor'', ''__defineGetter__'', ''__defineSetter__'', ''hasOwnProperty'',
      ''__lookupGetter__'', ''__lookupSetter__'', ''isPrototypeOf'',
      ''propertyIsEnumerable'', ''toString'', ''valueOf'', ''__proto__'',
      ''toLocaleString'']"

datatype LanguageValue = Str string | PrototypeMember string

definition extMap_get :: "string \<Rightarrow> LanguageValue option" where
  "extMap_get key =
     (case map_of extMap key of
        Some v \<Rightarrow> Some (Str v)
      | None \<Rightarrow> if key \<in> set object_prototype_members then Some (PrototypeMember key) else None)"

text \<open>
  \<open>getLanguageFromFile\<close>: a missing or empty filename gives \<open>'text'\<close>; otherwise the last
  piece after a dot, lower-cased, is looked up, and a miss gives \<open>'text'\<close>. All values of
  the table are non-empty, so \<open>||\<close> falls through only on a miss.
\<close>

definition getLanguageFromFile :: "string option \<Rightarrow> LanguageValue" where
  "getLanguageFromFile filename =
     (case filename of
        None \<Rightarrow> Str ''text''
      | Some f \<Rightarrow>
          (if f = [] then Str ''text''
           else
             (let ext = toLowerCase (last (split_char (CHR ''.'') f))
              in (case extMap_get ext of
                    Some v \<Rightarrow> v
                  | None \<Rightarrow> Str ''text''))))"

text \<open>The languages the table covers: its distinct values.\<close>

definition table_languages :: "string set" where
  "table_languages = snd ` set extMap"

subsection \<open>countNodes\<close>

datatype TreeNode =
  TreeNode (node_name: string) (node_type: string) (node_path: string)
           (children: "TreeNode list option") (node_size: "nat option")
           (node_language: "string option")

record Counts =
  files :: nat
  folders :: nat

text \<open>\<open>node.children?.forEach\<close>: no iteration when \<open>children\<close> is absent.\<close>

definition child_list :: "TreeNode list option \<Rightarrow> TreeNode list" where
  "child_list ch = (case ch of None \<Rightarrow> [] | Some cs \<Rightarrow> cs)"

lemma child_list_size:
  assumes "c \<in> set (child_list ch)"
  shows "size c < Suc (size_option (size_list size) ch)"
proof (cases ch)
  case None
  with assms show ?thesis by (simp add: child_list_def)
next
  case (Some cs)
  with assms have "c \<in> set cs" by (simp add: child_list_def)
  then have "size c \<le> size_list size cs" by (rule size_list_estimation') simp
  with Some show ?thesis by simp
qed

function countNodes :: "TreeNode \<Rightarrow> Counts" where
  "countNodes (TreeNode n t p ch s l) =
     (if t = ''file'' then \<lparr>files = 1, folders = 0\<rparr>
      else
        fold (\<lambda>child acc.
                (let counts = countNodes child
                 in \<lparr>files = files acc + files counts,
                     folders = folders acc + folders counts\<rparr>))
             (child_list ch)
             \<lparr>files = 0, folders = 1\<rparr>)"
  by pat_completeness auto
termination
  by (relation "measure size") (auto dest: child_list_size)

text \<open>All nodes of a tree, the root included.\<close>

function all_nodes :: "TreeNode \<Rightarrow> TreeNode list" where
  "all_nodes (TreeNode n t p ch s l) =
     TreeNode n t p ch s l # concat (map all_nodes (child_list ch))"
  by pat_completeness auto
termination
  by (relation "measure size") (auto dest: child_list_size)

definition count_type_file :: "TreeNode \<Rightarrow> nat" where
  "count_type_file t = length (filter (\<lambda>n. node_type n = ''file'') (all_nodes t))"

definition count_type_other :: "TreeNode \<Rightarrow> nat" where
  "count_type_other t = length (filter (\<lambda>n. node_type n \<noteq> ''file'') (all_nodes t))"

text \<open>A tree in which the nodes of type \<open>'file'\<close> are leaves.\<close>

definition files_are_leaves :: "TreeNode \<Rightarrow> bool" where
  "files_are_leaves t =
     list_all (\<lambda>n. node_type n = ''file'' \<longrightarrow> child_list (children n) = []) (all_nodes t)"

section \<open>Chat interface\<close>

text \<open>
  The chat component keeps its messages in component state and, during a turn, reads the
  response body as a stream of server-sent events. Modelling decisions:
  \<^item> Strings are lists of \<open>char\<close> (code units 0 to 255).
  \<^item> \<open>JSON.parse\<close> is a parameter \<open>parse\<close>: \<open>None\<close> stands for a thrown exception
    (a syntax error, or reading a field of \<open>null\<close>), \<open>Some chunk\<close> for a parsed event.
    A chunk carries the payload that the wire contract gives its type.
  \<^item> Message objects and citation arrays live in a store (a list indexed by address),
    because the handler mutates the object \<open>assistantMessage\<close> that the state may still
    reference, and the spread copy \<open>{...assistantMessage}\<close> shares the citations array.
  \<^item> The updater that the \<open>content\<close> branch passes to \<open>setMessages\<close> makes its copy
    \<open>{...assistantMessage}\<close> when the library runs it: at the call, or at a later render.
    The source fixes no schedule, so the model takes one as a parameter: which updaters
    run at their call, and before which reads the component is rendered. A render runs
    the queued updaters in order; one render always follows the turn. The updaters that
    append a message read nothing that changes, so they are applied at once.
  \<^item> \<open>Date.now()\<close> is a parameter; message ids are its decimal rendering.
\<close>

subsection \<open>Strings\<close>

definition newline :: char where
  "newline = CHR 0x0A"

definition is_space :: "char \<Rightarrow> bool" where
  "is_space c = (of_char c \<in> {9, 10, 11, 12, 13, 32, 160 :: nat})"

definition trim :: "string \<Rightarrow> string" where
  "trim s = rev (dropWhile is_space (rev (dropWhile is_space s)))"

definition is_word :: "char \<Rightarrow> bool" where
  "is_word c =
     (let n = (of_char c :: nat)
      in (48 \<le> n \<and> n \<le> 57) \<or> (65 \<le> n \<and> n \<le> 90) \<or> n = 95 \<or> (97 \<le> n \<and> n \<le> 122))"

definition digit_char :: "nat \<Rightarrow> char" where
  "digit_char d = char_of (48 + d)"

function toString :: "nat \<Rightarrow> string" where
  "toString n = (if n < 10 then [digit_char n] else toString (n div 10) @ [digit_char (n mod 10)])"
  by pat_completeness auto
termination
  by (relation "measure id") auto

declare toString.simps [simp del]

subsection \<open>Code fences: the split of MessageContent\<close>

text \<open>
  \<open>content.split(/(```[\s\S]*?```)/g)\<close>. A match at a position needs three backticks
  there and three backticks again later; the lazy body makes it end at the first such
  closing. \<open>break_fence\<close> cuts a string at its first three backticks.
\<close>

definition fence :: string where
  "fence = ''```''"

fun break_fence :: "string \<Rightarrow> (string \<times> string) option" where
  "break_fence [] = None"
| "break_fence (c # cs) =
     (if take 3 (c # cs) = fence then Some ([], drop 3 (c # cs))
      else (case break_fence cs of
              None \<Rightarrow> None
            | Some (before, rest) \<Rightarrow> Some (c # before, rest)))"

definition match_fence :: "string \<Rightarrow> (string \<times> string) option" where
  "match_fence s =
     (if take 3 s = fence then
        (case break_fence (drop 3 s) of
           None \<Rightarrow> None
         | Some (body, rest) \<Rightarrow> Some (fence @ body @ fence, rest))
      else None)"

lemma break_fence_length:
  "break_fence s = Some (before, rest) \<Longrightarrow> length before + 3 + length rest = length s"
proof (induction s arbitrary: before)
  case Nil
  then show ?case by simp
next
  case (Cons c cs)
  show ?case
  proof (cases "take 3 (c # cs) = fence")
    case True
    then have "3 \<le> length (c # cs)"
      by (metis fence_def length_take min.cobounded1 length_Cons list.size(3) numeral_3_eq_3)
    with True Cons.prems show ?thesis by auto
  next
    case False
    with Cons.prems obtain b where "break_fence cs = Some (b, rest)" and "before = c # b"
      by (auto split: option.splits)
    with Cons.IH show ?thesis by simp
  qed
qed

lemma match_fence_shorter:
  "match_fence s = Some (m, rest) \<Longrightarrow> length rest < length s"
  by (auto simp: match_fence_def split: if_splits option.splits dest!: break_fence_length)

text \<open>
  The split loop of the language specification: try a match at each position from the end
  of the previous match; on a match emit the text before it and the captured match and
  continue behind it; at the end emit the remaining text. \<open>acc\<close> holds, reversed, the
  text passed since the previous match.
\<close>

function split_loop :: "string \<Rightarrow> string \<Rightarrow> string list" where
  "split_loop acc s =
     (case match_fence s of
        Some (m, rest) \<Rightarrow> rev acc # m # split_loop [] rest
      | None \<Rightarrow>
          (case s of
             [] \<Rightarrow> [rev acc]
           | c # cs \<Rightarrow> split_loop (c # acc) cs))"
  by pat_completeness auto
termination
  by (relation "measure (\<lambda>(acc, s). length s)") (auto dest: match_fence_shorter)

declare split_loop.simps [simp del]

definition split_fences :: "string \<Rightarrow> string list" where
  "split_fences answer = split_loop [] answer"

subsection \<open>Messages, chunks and the component state\<close>

text \<open>
  \<open>Message\<close> is the interface of the source. Its parameter is the type of the
  \<open>citations\<close> field: an address of an array for an object in the store, the array itself
  for a message as rendered. The field \<open>description\<close> of a risk is named
  \<open>risk_description\<close>, and \<open>isLoading\<close> is named \<open>isLoading_chat\<close>, because the
  repositories page has fields of these names.
\<close>

type_synonym addr = nat

datatype Role = User | Assistant

datatype RiskLevel = Low | Medium | High

record Citation =
  "file" :: string
  lines :: string

record Risk =
  level :: RiskLevel
  risk_description :: string

record 'c Message =
  msg_id :: string
  role :: Role
  content :: string
  citations :: "'c option"
  risk :: "Risk option"
  timestamp :: nat

datatype Exn = SyntaxError | Error string | NetworkError

record ChatInterface =
  objects :: "addr Message list"
  arrays :: "Citation list list"
  messages :: "addr list"
  input :: string
  isLoading_chat :: bool
  console :: "(string \<times> Exn) list"

definition ChatInterface_init :: "string \<Rightarrow> nat \<Rightarrow> ChatInterface" where
  "ChatInterface_init welcome now =
     \<lparr>objects = [\<lparr>msg_id = ''1'', role = Assistant, content = welcome, citations = None,
                   risk = None, timestamp = now\<rparr>],
      arrays = [], messages = [0], input = [], isLoading_chat = False, console = []\<rparr>"

text \<open>
  \<open>modify\<close> writes through a reference; \<open>new_message\<close> allocates an object;
  \<open>setMessages\<close> applies an updater to the state.
\<close>

definition modify :: "addr \<Rightarrow> ('a \<Rightarrow> 'a) \<Rightarrow> 'a list \<Rightarrow> 'a list" where
  "modify a f heap = (if a < length heap then heap[a := f (heap ! a)] else heap)"

definition setMessages :: "(addr list \<Rightarrow> addr list) \<Rightarrow> ChatInterface \<Rightarrow> ChatInterface" where
  "setMessages f st = st\<lparr>messages := f (messages st)\<rparr>"

definition new_message :: "addr Message \<Rightarrow> ChatInterface \<Rightarrow> addr \<times> ChatInterface" where
  "new_message m st = (length (objects st), st\<lparr>objects := objects st @ [m]\<rparr>)"

datatype Chunk =
  ContentChunk string
| CitationChunk Citation
| RiskChunk Risk
| ErrorChunk string
| OtherChunk

text \<open>
  The local variables of \<open>handleSubmit\<close> while the stream is read, with the number of
  content updaters that are queued and not yet run, and two counters that index the
  schedule: the content updaters issued and the reads taken so far.
\<close>

record Turn =
  ui :: ChatInterface
  assistantMessage :: addr
  buffer :: string
  queued :: nat
  updates :: nat
  reads_done :: nat

text \<open>
  A schedule: whether the library runs the \<open>k\<close>-th content updater at its call (it can
  only when no earlier one is queued), and whether it renders the component while the
  handler awaits the \<open>i\<close>-th read.
\<close>

record Schedule =
  at_call :: "nat \<Rightarrow> bool"
  render_before_read :: "nat \<Rightarrow> bool"

subsection \<open>The branches on the chunk type\<close>

text \<open>
  The updater of the \<open>content\<close> branch: replace the last message of the state by a fresh
  copy of \<open>assistantMessage\<close> as it is when the updater runs.
\<close>

definition publish :: "Turn \<Rightarrow> Turn" where
  "publish t =
     (let (copy, st1) = new_message (objects (ui t) ! assistantMessage t) (ui t);
          st2 = setMessages (\<lambda>prev. prev[length prev - 1 := copy]) st1
      in t\<lparr>ui := st2\<rparr>)"

text \<open>A render runs the queued updaters, one after the other.\<close>

fun run_queued :: "nat \<Rightarrow> Turn \<Rightarrow> Turn" where
  "run_queued 0 t = t"
| "run_queued (Suc n) t = run_queued n (publish t)"

definition render :: "Turn \<Rightarrow> Turn" where
  "render t = (run_queued (queued t) t)\<lparr>queued := 0\<rparr>"

text \<open>
  \<open>content\<close>: append the delta to \<open>assistantMessage.content\<close>, then pass the updater to
  \<open>setMessages\<close>, which runs it now or queues it.
\<close>

definition append_delta :: "string \<Rightarrow> Turn \<Rightarrow> Turn" where
  "append_delta delta t =
     t\<lparr>ui := (ui t)\<lparr>objects := modify (assistantMessage t)
                                 (\<lambda>m. m\<lparr>content := content m @ delta\<rparr>) (objects (ui t))\<rparr>,
       updates := updates t + 1\<rparr>"

definition on_content :: "Schedule \<Rightarrow> string \<Rightarrow> Turn \<Rightarrow> Turn" where
  "on_content sched delta t =
     (let t1 = append_delta delta t
      in if queued t = 0 \<and> at_call sched (updates t) then publish t1
         else t1\<lparr>queued := queued t + 1\<rparr>)"

text \<open>
  \<open>citation\<close>: create the array when it is absent, then push. No \<open>setMessages\<close>.
\<close>

definition on_citation :: "Citation \<Rightarrow> Turn \<Rightarrow> Turn" where
  "on_citation c t =
     (let a = assistantMessage t;
          st = ui t;
          st1 = (case citations (objects st ! a) of
                   None \<Rightarrow>
                     st\<lparr>arrays := arrays st @ [[]],
                        objects := modify a (\<lambda>m. m\<lparr>citations := Some (length (arrays st))\<rparr>)
                                     (objects st)\<rparr>
                 | Some _ \<Rightarrow> st);
          st2 = (case citations (objects st1 ! a) of
                   None \<Rightarrow> st1
                 | Some arr \<Rightarrow> st1\<lparr>arrays := modify arr (\<lambda>cs. cs @ [c]) (arrays st1)\<rparr>)
      in t\<lparr>ui := st2\<rparr>)"

text \<open>\<open>risk\<close>: assign the field. No \<open>setMessages\<close>.\<close>

definition on_risk :: "Risk \<Rightarrow> Turn \<Rightarrow> Turn" where
  "on_risk r t =
     t\<lparr>ui := (ui t)\<lparr>objects := modify (assistantMessage t) (\<lambda>m. m\<lparr>risk := Some r\<rparr>)
                                 (objects (ui t))\<rparr>\<rparr>"

text \<open>\<open>error\<close>: \<open>throw new Error(chunk.content)\<close>. Any other type: nothing.\<close>

fun dispatch :: "Schedule \<Rightarrow> Chunk \<Rightarrow> Turn \<Rightarrow> Exn + Turn" where
  "dispatch sched (ContentChunk delta) t = Inr (on_content sched delta t)"
| "dispatch sched (CitationChunk c) t = Inr (on_citation c t)"
| "dispatch sched (RiskChunk r) t = Inr (on_risk r t)"
| "dispatch sched (ErrorChunk msg) t = Inl (Error msg)"
| "dispatch sched OtherChunk t = Inr t"

definition console_error :: "string \<Rightarrow> Exn \<Rightarrow> ChatInterface \<Rightarrow> ChatInterface" where
  "console_error label e st = st\<lparr>console := console st @ [(label, e)]\<rparr>"

text \<open>
  The inner \<open>try\<close>/\<open>catch\<close> around \<open>JSON.parse\<close> and the branches: whatever is thrown
  inside, the \<open>throw\<close> of the \<open>error\<close> branch included, is logged and the loop goes on.
\<close>

definition try_chunk ::
  "(string \<Rightarrow> Chunk option) \<Rightarrow> Schedule \<Rightarrow> string \<Rightarrow> Turn \<Rightarrow> Turn" where
  "try_chunk parse sched data t =
     (case (case parse data of
              None \<Rightarrow> Inl SyntaxError
            | Some chunk \<Rightarrow> dispatch sched chunk t) of
        Inr t' \<Rightarrow> t'
      | Inl e \<Rightarrow> t\<lparr>ui := console_error ''Error parsing chunk:'' e (ui t)\<rparr>)"

text \<open>
  The \<open>for\<close> loop over the lines of one read. \<open>break\<close> on the sentinel leaves this loop
  only.
\<close>

fun process_lines ::
  "(string \<Rightarrow> Chunk option) \<Rightarrow> Schedule \<Rightarrow> string list \<Rightarrow> Turn \<Rightarrow> Turn" where
  "process_lines parse sched [] t = t"
| "process_lines parse sched (line # rest) t =
     (if take 6 line = ''data: '' then
        (let data = drop 6 line
         in if data = ''[DONE]'' then t
            else process_lines parse sched rest (try_chunk parse sched data t))
      else process_lines parse sched rest t)"

text \<open>
  The \<open>while (true)\<close> loop over the reads, until the reader reports \<open>done\<close>. The text
  after the last newline stays in \<open>buffer\<close>. While the handler awaits a read the
  component may be rendered.
\<close>

fun read_loop ::
  "(string \<Rightarrow> Chunk option) \<Rightarrow> Schedule \<Rightarrow> string list \<Rightarrow> Turn \<Rightarrow> Turn" where
  "read_loop parse sched [] t = t"
| "read_loop parse sched (v # later) t =
     (let t0 = (if render_before_read sched (reads_done t) then render t else t);
          pieces = split_char newline (buffer t0 @ v)
      in read_loop parse sched later
           (process_lines parse sched (butlast pieces)
              (t0\<lparr>buffer := last pieces, reads_done := reads_done t0 + 1\<rparr>)))"

subsection \<open>handleSubmit\<close>

record Clock =
  user_now :: nat
  assistant_now :: nat
  error_now :: nat

datatype StreamEnd = Done | ReadFailed

datatype ChatResponse = FetchRejected | NotOk | NoBody | Body "string list" StreamEnd

definition error_text :: string where
  "error_text = ''Sorry, I encountered an error processing your request. Please try again.''"

definition append_message :: "addr Message \<Rightarrow> ChatInterface \<Rightarrow> addr \<times> ChatInterface" where
  "append_message m st =
     (let (a, st1) = new_message m st
      in (a, setMessages (\<lambda>prev. prev @ [a]) st1))"

definition begin_turn :: "nat \<Rightarrow> ChatInterface \<Rightarrow> Turn" where
  "begin_turn now st =
     (let (a, st1) = append_message
                       \<lparr>msg_id = toString (now + 1), role = Assistant, content = [],
                        citations = None, risk = None, timestamp = now\<rparr> st
      in \<lparr>ui = st1, assistantMessage = a, buffer = [], queued = 0, updates = 0,
          reads_done = 0\<rparr>)"

text \<open>
  The stream of one turn, up to the render that follows it (the \<open>finally\<close> block changes
  the state, so the component is rendered and the updaters still queued are run).
\<close>

definition stream_turn ::
  "(string \<Rightarrow> Chunk option) \<Rightarrow> Schedule \<Rightarrow> nat \<Rightarrow> string list \<Rightarrow> ChatInterface \<Rightarrow> Turn" where
  "stream_turn parse sched now reads st =
     render (read_loop parse sched reads (begin_turn now st))"

text \<open>
  The outer \<open>try\<close> block: the exception that reaches the outer \<open>catch\<close>, if any, and the
  state of the component. The updater with which the \<open>catch\<close> appends the failure message
  is queued behind the content updaters, so it finds the state they leave.
\<close>

definition try_block ::
  "(string \<Rightarrow> Chunk option) \<Rightarrow> Schedule \<Rightarrow> Clock \<Rightarrow> ChatResponse \<Rightarrow> ChatInterface
     \<Rightarrow> Exn option \<times> ChatInterface" where
  "try_block parse sched clock response st =
     (case response of
        FetchRejected \<Rightarrow> (Some NetworkError, st)
      | NotOk \<Rightarrow> (Some (Error ''Failed to get response''), st)
      | NoBody \<Rightarrow> (Some (Error ''No response body''), st)
      | Body reads ending \<Rightarrow>
          (let t = stream_turn parse sched (assistant_now clock) reads st
           in (case ending of Done \<Rightarrow> None | ReadFailed \<Rightarrow> Some NetworkError, ui t)))"

definition handleSubmit ::
  "(string \<Rightarrow> Chunk option) \<Rightarrow> Schedule \<Rightarrow> Clock \<Rightarrow> ChatResponse \<Rightarrow> ChatInterface
     \<Rightarrow> ChatInterface" where
  "handleSubmit parse sched clock response st =
     (if trim (input st) = [] \<or> isLoading_chat st then st
      else
        (let (u, st1) = append_message
                          \<lparr>msg_id = toString (user_now clock), role = User,
                           content = input st, citations = None, risk = None,
                           timestamp = user_now clock\<rparr> st;
             st2 = st1\<lparr>input := [], isLoading_chat := True\<rparr>;
             (exn, st3) = try_block parse sched clock response st2;
             st4 = (case exn of
                      None \<Rightarrow> st3
                    | Some e \<Rightarrow>
                        snd (append_message
                               \<lparr>msg_id = toString (error_now clock + 1), role = Assistant,
                                content = error_text, citations = None, risk = None,
                                timestamp = error_now clock\<rparr>
                               (console_error ''Chat error:'' e st3)))
         in st4\<lparr>isLoading_chat := False\<rparr>))"

subsection \<open>Rendering\<close>

datatype Block =
  Paragraph string
| CodeBlock string string
| FileReference string string
| RiskAnalysis RiskLevel string

text \<open>
  \<open>part.match(/```(\w+)?\n?([\s\S]*?)```/)\<close> on a part that starts with three backticks:
  the longest run of word characters is the language, an optional newline follows, and the
  code runs to the next three backticks.
\<close>

definition match_code :: "string \<Rightarrow> (string option \<times> string) option" where
  "match_code part =
     (let r = drop 3 part;
          language = takeWhile is_word r;
          r1 = dropWhile is_word r;
          r2 = (case r1 of c # cs \<Rightarrow> if c = newline then cs else r1 | [] \<Rightarrow> r1)
      in (case break_fence r2 of
            None \<Rightarrow> None
          | Some (code, _) \<Rightarrow> Some (if language = [] then None else Some language, code)))"

definition render_part :: "string \<Rightarrow> Block" where
  "render_part part =
     (if take 3 part = fence then
        (case match_code part of
           Some (language, code) \<Rightarrow>
             CodeBlock (trim code) (case language of None \<Rightarrow> ''text'' | Some l \<Rightarrow> l)
         | None \<Rightarrow> Paragraph part)
      else Paragraph part)"

definition MessageContent :: "string \<Rightarrow> Block list" where
  "MessageContent answer = map render_part (split_fences answer)"

text \<open>\<open>MessageBubble\<close>: the content, then the citations when there are any, then the risk.\<close>

definition MessageBubble :: "Citation list Message \<Rightarrow> Block list" where
  "MessageBubble message =
     MessageContent (content message)
     @ (case citations message of
          None \<Rightarrow> []
        | Some cs \<Rightarrow> if length cs > 0 then map (\<lambda>c. FileReference (file c) (lines c)) cs else [])
     @ (case risk message of
          None \<Rightarrow> []
        | Some r \<Rightarrow> [RiskAnalysis (level r) (risk_description r)])"

text \<open>A message of the state as the renderer reads it, through the references.\<close>

definition resolve :: "ChatInterface \<Rightarrow> addr \<Rightarrow> Citation list Message" where
  "resolve st a =
     (let m = objects st ! a
      in \<lparr>msg_id = msg_id m, role = role m, content = content m,
          citations = map_option (\<lambda>arr. arrays st ! arr) (citations m),
          risk = risk m, timestamp = timestamp m\<rparr>)"

definition rendered :: "ChatInterface \<Rightarrow> Block list list" where
  "rendered st = map (\<lambda>a. MessageBubble (resolve st a)) (messages st)"

definition texts :: "ChatInterface \<Rightarrow> string list" where
  "texts st = map (\<lambda>a. content (objects st ! a)) (messages st)"

fun is_file_reference :: "Block \<Rightarrow> bool" where
  "is_file_reference (FileReference _ _) = True"
| "is_file_reference _ = False"

fun is_risk_analysis :: "Block \<Rightarrow> bool" where
  "is_risk_analysis (RiskAnalysis _ _) = True"
| "is_risk_analysis _ = False"

subsection \<open>The events of a stream\<close>

text \<open>
  The chunks that the loops hand to the branches, in order: per read the lines before the
  first sentinel of that read.
\<close>

fun batch_chunks :: "(string \<Rightarrow> Chunk option) \<Rightarrow> string list \<Rightarrow> Chunk list" where
  "batch_chunks parse [] = []"
| "batch_chunks parse (line # rest) =
     (if take 6 line = ''data: '' then
        (if drop 6 line = ''[DONE]'' then []
         else (case parse (drop 6 line) of None \<Rightarrow> [] | Some chunk \<Rightarrow> [chunk])
              @ batch_chunks parse rest)
      else batch_chunks parse rest)"

fun received :: "(string \<Rightarrow> Chunk option) \<Rightarrow> string \<Rightarrow> string list \<Rightarrow> Chunk list" where
  "received parse buf [] = []"
| "received parse buf (v # later) =
     (let pieces = split_char newline (buf @ v)
      in batch_chunks parse (butlast pieces) @ received parse (last pieces) later)"

fun content_deltas :: "Chunk list \<Rightarrow> string" where
  "content_deltas [] = []"
| "content_deltas (ContentChunk delta # cs) = delta @ content_deltas cs"
| "content_deltas (_ # cs) = content_deltas cs"

fun is_citation :: "Chunk \<Rightarrow> bool" where
  "is_citation (CitationChunk _) = True"
| "is_citation _ = False"

text \<open>
  The events of the whole stream text, however it is cut into reads: the parsed data lines.
  \<open>quiet_after_done\<close> says that no event follows the sentinel.
\<close>

definition is_done :: "string \<Rightarrow> bool" where
  "is_done l \<longleftrightarrow> take 6 l = ''data: '' \<and> drop 6 l = ''[DONE]''"

definition chunk_of :: "(string \<Rightarrow> Chunk option) \<Rightarrow> string \<Rightarrow> Chunk option" where
  "chunk_of parse l =
     (if take 6 l = ''data: '' \<and> drop 6 l \<noteq> ''[DONE]'' then parse (drop 6 l) else None)"

definition stream_lines :: "string list \<Rightarrow> string list" where
  "stream_lines reads = butlast (split_char newline (concat reads))"

definition stream_events :: "(string \<Rightarrow> Chunk option) \<Rightarrow> string list \<Rightarrow> Chunk list" where
  "stream_events parse reads = List.map_filter (chunk_of parse) (stream_lines reads)"

fun quiet_after_done :: "(string \<Rightarrow> Chunk option) \<Rightarrow> string list \<Rightarrow> bool" where
  "quiet_after_done parse [] = True"
| "quiet_after_done parse (l # ls) =
     (if is_done l then list_all (\<lambda>x. chunk_of parse x = None) ls
      else quiet_after_done parse ls)"

subsection \<open>The assistant message of a turn\<close>

text \<open>
  \<open>stored\<close> is the object behind the local variable \<open>assistantMessage\<close>; \<open>shown\<close> is
  the object that the last message of the state refers to.
\<close>

definition stored :: "Turn \<Rightarrow> addr Message" where
  "stored t = objects (ui t) ! assistantMessage t"

definition shown :: "Turn \<Rightarrow> addr Message" where
  "shown t = objects (ui t) ! last (messages (ui t))"

text \<open>Invariants of the read loop, used in the proofs.\<close>

definition turn_ok :: "Turn \<Rightarrow> bool" where
  "turn_ok t \<longleftrightarrow>
     assistantMessage t < length (objects (ui t))
     \<and> messages (ui t) \<noteq> []
     \<and> last (messages (ui t)) < length (objects (ui t))"

definition frame :: "Turn \<Rightarrow> Turn \<Rightarrow> bool" where
  "frame t t' \<longleftrightarrow>
     assistantMessage t' = assistantMessage t
     \<and> length (objects (ui t)) \<le> length (objects (ui t'))
     \<and> (\<forall>a < length (objects (ui t)). a \<noteq> assistantMessage t
            \<longrightarrow> objects (ui t') ! a = objects (ui t) ! a)
     \<and> length (messages (ui t')) = length (messages (ui t))
     \<and> butlast (messages (ui t')) = butlast (messages (ui t))"

definition tracks :: "Turn \<Rightarrow> Chunk list \<Rightarrow> Turn \<Rightarrow> bool" where
  "tracks t0 cs t \<longleftrightarrow>
     turn_ok t \<and> frame t0 t
     \<and> content (stored t) = content (stored t0) @ content_deltas cs
     \<and> (queued t = 0 \<longrightarrow> content (shown t) = content (stored t))
     \<and> (list_all (\<lambda>c. \<not> is_citation c) cs \<longrightarrow>
          citations (stored t) = citations (stored t0)
          \<and> (citations (shown t0) = None \<and> citations (stored t0) = None
               \<longrightarrow> citations (shown t) = None))"

text \<open>The state after the user message is appended and the input cleared.\<close>

definition user_sent :: "Clock \<Rightarrow> ChatInterface \<Rightarrow> ChatInterface" where
  "user_sent clock st =
     st\<lparr>objects := objects st @ [\<lparr>msg_id = toString (user_now clock), role = User,
                                     content = input st, citations = None, risk = None,
                                     timestamp = user_now clock\<rparr>],
        messages := messages st @ [length (objects st)],
        input := [], isLoading_chat := True\<rparr>"

section \<open>Sample inputs\<close>

text \<open>Concrete inputs on which the theorems below are instantiated.\<close>

definition repo_ready :: Repository where
  "repo_ready = \<lparr>repo_id = 1, name = ''api'', description = None, url = None,
     local_path = None, status = ''ready'', indexed_files = 3, total_files = 3,
     languages = None, created_at = ''2024-01-01''\<rparr>"

definition repo_indexing :: Repository where
  "repo_indexing = \<lparr>repo_id = 2, name = ''web'', description = None, url = None,
     local_path = None, status = ''indexing'', indexed_files = 1, total_files = 9,
     languages = None, created_at = ''2024-01-02''\<rparr>"

definition page_two_repos :: ReposPage where
  "page_two_repos = \<lparr>repos = [repo_ready, repo_indexing], isLoading = False,
     showCreateModal = False, newRepoName = [], newRepoUrl = [], newRepoPath = [],
     error = [], isCreating = False, deletingId = None\<rparr>"

text \<open>
  Two deletes whose requests overlap: both buttons are clicked on the page with two
  repositories, then the two responses arrive, both ok.
\<close>

definition first_delete :: PendingDelete where
  "first_delete = \<lparr>captured_repos = [repo_ready, repo_indexing], pending_id = 1\<rparr>"

definition second_delete :: PendingDelete where
  "second_delete = \<lparr>captured_repos = [repo_ready, repo_indexing], pending_id = 2\<rparr>"

definition after_two_clicks :: ReposPage where
  "after_two_clicks =
     fst (deleteRepo_click True 2 (fst (deleteRepo_click True 1 page_two_repos)))"

definition after_first_response :: ReposPage where
  "after_first_response =
     fst (deleteRepo_response (Response True None) first_delete after_two_clicks)"

definition after_second_response :: ReposPage where
  "after_second_response =
     fst (deleteRepo_response (Response True None) second_delete after_first_response)"

definition file_with_child :: TreeNode where
  "file_with_child =
     TreeNode ''a.ts'' ''file'' ''a.ts''
       (Some [TreeNode ''b.ts'' ''file'' ''a.ts/b.ts'' None None None]) None None"

definition small_tree :: TreeNode where
  "small_tree =
     TreeNode ''src'' ''folder'' ''src''
       (Some [TreeNode ''a.ts'' ''file'' ''src/a.ts'' None (Some 10) (Some ''typescript''),
              TreeNode ''lib'' ''folder'' ''src/lib''
                (Some [TreeNode ''b.py'' ''file'' ''src/lib/b.py'' None None None]) None None,
              TreeNode ''empty'' ''folder'' ''src/empty'' None None None])
       None None"

text \<open>
  Event payloads as they travel on the wire, and \<open>JSON.parse\<close> on exactly these payloads.
\<close>

definition wire_content_A :: string where
  \<open>wire_content_A = ''{"type":"content","content":"A"}''\<close>

definition wire_content_B :: string where
  \<open>wire_content_B = ''{"type":"content","content":"B"}''\<close>

definition wire_error :: string where
  \<open>wire_error = ''{"type":"error","content":"boom"}''\<close>

definition wire_citation :: string where
  \<open>wire_citation = ''{"type":"citation","citation":{"file":"a.py","lines":"1-9"}}''\<close>

definition wire_risk :: string where
  \<open>wire_risk = ''{"type":"risk","risk":{"level":"low","description":"grounded"}}''\<close>

definition sample_parse :: "string \<Rightarrow> Chunk option" where
  "sample_parse data =
     (if data = wire_content_A then Some (ContentChunk ''A'')
      else if data = wire_content_B then Some (ContentChunk ''B'')
      else if data = wire_error then Some (ErrorChunk ''boom'')
      else if data = wire_citation then Some (CitationChunk \<lparr>file = ''a.py'', lines = ''1-9''\<rparr>)
      else if data = wire_risk then Some (RiskChunk \<lparr>level = Low, risk_description = ''grounded''\<rparr>)
      else None)"

definition sample_clock :: Clock where
  "sample_clock = \<lparr>user_now = 3, assistant_now = 4, error_now = 6\<rparr>"

definition sample_chat :: ChatInterface where
  "sample_chat = (ChatInterface_init ''Welcome'' 0)\<lparr>input := ''why?''\<rparr>"

definition data_line :: "string \<Rightarrow> string" where
  "data_line payload = ''data: '' @ payload @ [newline]"

definition error_then_content :: "string list" where
  "error_then_content = [data_line wire_error @ data_line wire_content_A]"

definition done_then_content :: "string list" where
  "done_then_content = [data_line ''[DONE]'', data_line wire_content_A]"

definition done_and_content_together :: "string list" where
  "done_and_content_together = [data_line ''[DONE]'' @ data_line wire_content_A]"

definition content_then_risk :: "string list" where
  "content_then_risk = [data_line wire_content_A, data_line wire_risk]"

definition split_reads :: "string list" where
  "split_reads =
     [data_line wire_content_A @ ''data: '',
      wire_content_B @ [newline] @ data_line wire_risk @ [newline] @ data_line ''[DONE]'']"

text \<open>
  Three schedules: every updater runs at its call; no updater runs at its call and the
  component is rendered before every read; no updater runs at its call and the component
  is rendered only after the turn.
\<close>

definition updaters_at_call :: Schedule where
  "updaters_at_call = \<lparr>at_call = (\<lambda>k. True), render_before_read = (\<lambda>i. False)\<rparr>"

definition render_between_reads :: Schedule where
  "render_between_reads = \<lparr>at_call = (\<lambda>k. False), render_before_read = (\<lambda>i. True)\<rparr>"

definition single_pass :: Schedule where
  "single_pass = \<lparr>at_call = (\<lambda>k. False), render_before_read = (\<lambda>i. False)\<rparr>"

definition sample_turn :: Turn where
  "sample_turn =
     on_content updaters_at_call ''A''
       (on_citation \<lparr>file = ''a.py'', lines = ''1-9''\<rparr>
          (begin_turn 4 (ChatInterface_init ''Welcome'' 0)))"

definition sample_risk :: Risk where
  "sample_risk = \<lparr>level = Low, risk_description = ''grounded''\<rparr>"

definition sample_message :: "Citation list Message" where
  "sample_message =
     \<lparr>msg_id = ''7'', role = Assistant, content = ''see```py\<newline>x = 1\<newline>```'',
      citations = Some [\<lparr>file = ''a.py'', lines = ''1-9''\<rparr>], risk = None, timestamp = 7\<rparr>"

section \<open>Properties\<close>

subsection \<open>ReposPage\<close>

text \<open>
  A response that is ok overwrites the list by the captured list without the id; every
  other response leaves the list of the state as it is.
\<close>

lemma deleteRepo_response_list:
  "repos (fst (deleteRepo_response (Response True body) p st))
     = filter (\<lambda>r. repo_id r \<noteq> pending_id p) (captured_repos p)"
  "repos (fst (deleteRepo_response Rejected p st)) = repos st"
  "repos (fst (deleteRepo_response (Response False body) p st)) = repos st"
  by (simp_all add: deleteRepo_response_def split: option.splits)

text \<open>
  When nothing touches the page between the click and the response, the captured list is
  the list of the state, and the handler removes the entries of the id from it.
\<close>

lemma deleteRepo_alone:
  "repos (fst (deleteRepo True (Response True body) i st))
     = filter (\<lambda>r. repo_id r \<noteq> i) (repos st)"
  "repos (fst (deleteRepo False response i st)) = repos st"
  "repos (fst (deleteRepo confirmed Rejected i st)) = repos st"
  "repos (fst (deleteRepo confirmed (Response False body) i st)) = repos st"
  by (simp_all add: deleteRepo_def deleteRepo_click_def deleteRepo_response_def
        split: option.splits)

text \<open>
  Claim C9. The claim says that a successful delete leaves the previous list without the
  entries of the id. The handler filters the list that its closure captured at the
  click. Only the button of the repository that \<open>deletingId\<close> names is disabled, so a
  second delete can be started while the first is pending. Then the second response
  overwrites the list, from which the first response has removed repository 1, by the
  captured list without repository 2: repository 1 is back, where the previous list
  without repository 2 is empty.
\<close>

theorem overlapping_deletes_restore_entry:
  "snd (deleteRepo_click True 1 page_two_repos) = Some first_delete
   \<and> snd (deleteRepo_click True 2 (fst (deleteRepo_click True 1 page_two_repos)))
       = Some second_delete
   \<and> repos after_first_response = [repo_indexing]
   \<and> repos after_second_response = [repo_ready]
   \<and> filter (\<lambda>r. repo_id r \<noteq> 2) (repos after_first_response) = []"
  by (simp add: after_second_response_def after_first_response_def after_two_clicks_def
        first_delete_def second_delete_def deleteRepo_click_def deleteRepo_response_def
        page_two_repos_def repo_ready_def repo_indexing_def)

subsection \<open>ChatPage\<close>

lemma loadRepositories_ready:
  assumes "\<forall>r \<in> set (chat_repos st). status r = ''ready''"
    and "\<forall>r \<in> set_option (selectedRepo st). status r = ''ready''"
  shows "(\<forall>r \<in> set (chat_repos (loadRepositories response st)). status r = ''ready'')
       \<and> (\<forall>r \<in> set_option (selectedRepo (loadRepositories response st)). status r = ''ready'')"
proof (cases response)
  case Rejected
  with assms show ?thesis by (simp add: loadRepositories_def)
next
  case (Response ok body)
  show ?thesis
  proof (cases "ok \<and> body \<noteq> None")
    case False
    with Response assms show ?thesis
      by (auto simp: loadRepositories_def)
  next
    case True
    then obtain data where body: "body = Some data" and ok: ok by auto
    show ?thesis
    proof (cases "filter (\<lambda>r. status r = ''ready'') data")
      case Nil
      with Response body ok assms show ?thesis
        by (simp add: loadRepositories_def)
    next
      case (Cons r rs)
      have "set (r # rs) = {x \<in> set data. status x = ''ready''}"
        unfolding Cons[symmetric] by simp
      then have "\<forall>x \<in> set (r # rs). status x = ''ready''" by blast
      then show ?thesis
        using Response body ok Cons by (simp add: loadRepositories_def)
    qed
  qed
qed

lemma selectRepo_ready:
  assumes "\<forall>r \<in> set (chat_repos st). status r = ''ready''"
    and "\<forall>r \<in> set_option (selectedRepo st). status r = ''ready''"
  shows "(\<forall>r \<in> set (chat_repos (selectRepo v st)). status r = ''ready'')
       \<and> (\<forall>r \<in> set_option (selectedRepo (selectRepo v st)). status r = ''ready'')"
proof (cases "find (\<lambda>r. repo_id r = v) (chat_repos st)")
  case None
  with assms show ?thesis by (simp add: selectRepo_def)
next
  case (Some repo)
  then have "repo \<in> set (chat_repos st)"
    by (auto simp: find_Some_iff)
  with assms Some show ?thesis by (simp add: selectRepo_def)
qed

lemma ChatPage_foldl_ready:
  assumes "\<forall>r \<in> set (chat_repos st). status r = ''ready''"
    and "\<forall>r \<in> set_option (selectedRepo st). status r = ''ready''"
  shows "(\<forall>r \<in> set (chat_repos (foldl ChatPage_step st evs)). status r = ''ready'')
       \<and> (\<forall>r \<in> set_option (selectedRepo (foldl ChatPage_step st evs)). status r = ''ready'')"
  using assms
proof (induction evs arbitrary: st)
  case Nil
  then show ?case by simp
next
  case (Cons ev evs)
  have "(\<forall>r \<in> set (chat_repos (ChatPage_step st ev)). status r = ''ready'')
      \<and> (\<forall>r \<in> set_option (selectedRepo (ChatPage_step st ev)). status r = ''ready'')"
  proof (cases ev)
    case (Load response)
    then show ?thesis
      using loadRepositories_ready[OF Cons.prems] by simp
  next
    case (Select v)
    then show ?thesis
      using selectRepo_ready[OF Cons.prems] by simp
  qed
  then have "(\<forall>r \<in> set (chat_repos (foldl ChatPage_step (ChatPage_step st ev) evs)).
                status r = ''ready'')
      \<and> (\<forall>r \<in> set_option (selectedRepo (foldl ChatPage_step (ChatPage_step st ev) evs)).
                status r = ''ready'')"
    by (intro Cons.IH) simp_all
  then show ?case by simp
qed

lemma offered_subset:
  "offered st \<subseteq> set (chat_repos st) \<union> set_option (selectedRepo st)"
  by (auto simp: offered_def ChatPage_render_def split: if_splits)

lemma offered_load:
  "offered (loadRepositories (Response True (Some data)) st)
     = {r \<in> set data. status r = ''ready''}"
proof (cases "filter (\<lambda>r. status r = ''ready'') data")
  case Nil
  have "set (filter (\<lambda>r. status r = ''ready'') data) = {r \<in> set data. status r = ''ready''}"
    by simp
  with Nil have "{r \<in> set data. status r = ''ready''} = {}" by simp
  with Nil show ?thesis
    by (simp add: loadRepositories_def offered_def ChatPage_render_def)
next
  case (Cons r rs)
  have eq: "{r \<in> set data. status r = ''ready''} = set (r # rs)"
    unfolding Cons[symmetric] by simp
  show ?thesis
    unfolding eq using Cons
    by (cases rs) (auto simp: loadRepositories_def offered_def ChatPage_render_def)
qed

text \<open>
  Claim C3. For every list of repositories the server returns, the chat page offers
  exactly those whose status is \<open>'ready'\<close>; and whatever loads and selections happen,
  every repository a question can be sent for has status \<open>'ready'\<close>.
\<close>

theorem chat_only_ready:
  "offered (loadRepositories (Response True (Some data)) st)
     = {r \<in> set data. status r = ''ready''}
   \<and> (\<forall>r \<in> offered (ChatPage_run evs). status r = ''ready'')"
proof
  show "offered (loadRepositories (Response True (Some data)) st)
          = {r \<in> set data. status r = ''ready''}"
    by (rule offered_load)
next
  have "(\<forall>r \<in> set (chat_repos (ChatPage_run evs)). status r = ''ready'')
      \<and> (\<forall>r \<in> set_option (selectedRepo (ChatPage_run evs)). status r = ''ready'')"
    unfolding ChatPage_run_def
    by (rule ChatPage_foldl_ready) (simp_all add: ChatPage_init_def)
  then show "\<forall>r \<in> offered (ChatPage_run evs). status r = ''ready''"
    using offered_subset[of "ChatPage_run evs"] by blast
qed

text \<open>
  The theorem after a load that returns an indexing and a ready repository, followed by a
  selection of the indexing one (which the selector does not list).
\<close>

theorem chat_only_ready_witness:
  "repo_ready \<in> offered (ChatPage_run [Load (Response True (Some [repo_indexing, repo_ready])), Select 2])
   \<and> status repo_ready = ''ready''
   \<and> repo_indexing \<notin> offered (loadRepositories (Response True (Some [repo_indexing, repo_ready])) ChatPage_init)"
  using chat_only_ready[of "[repo_indexing, repo_ready]" ChatPage_init
          "[Load (Response True (Some [repo_indexing, repo_ready])), Select 2]"]
  by (simp add: ChatPage_run_def ChatPage_init_def loadRepositories_def selectRepo_def
        offered_def ChatPage_render_def repo_ready_def repo_indexing_def)

subsection \<open>Visualizer: countNodes\<close>

lemma fold_counts_files:
  "files (fold (\<lambda>child acc. (let counts = f child in \<lparr>files = files acc + files counts, folders = folders acc + folders counts\<rparr>)) cs acc)
     = files acc + sum_list (map (\<lambda>c. files (f c)) cs)"
  by (induction cs arbitrary: acc) (simp_all add: Let_def)

lemma fold_counts_folders:
  "folders (fold (\<lambda>child acc. (let counts = f child in \<lparr>files = files acc + files counts, folders = folders acc + folders counts\<rparr>)) cs acc)
     = folders acc + sum_list (map (\<lambda>c. folders (f c)) cs)"
  by (induction cs arbitrary: acc) (simp_all add: Let_def)

lemma length_filter_concat:
  "length (filter P (concat xss)) = sum_list (map (\<lambda>xs. length (filter P xs)) xss)"
  by (induction xss) simp_all

lemma files_are_leaves_child:
  assumes "files_are_leaves (TreeNode n t p ch s l)" and "c \<in> set (child_list ch)"
  shows "files_are_leaves c"
  using assms by (auto simp: files_are_leaves_def list_all_iff)

lemma count_type_file_node:
  "count_type_file (TreeNode n t p ch s l)
     = (if t = ''file'' then 1 else 0) + sum_list (map count_type_file (child_list ch))"
  unfolding count_type_file_def by (simp add: length_filter_concat comp_def)

lemma count_type_other_node:
  "count_type_other (TreeNode n t p ch s l)
     = (if t = ''file'' then 0 else 1) + sum_list (map count_type_other (child_list ch))"
  unfolding count_type_other_def by (simp add: length_filter_concat comp_def)

lemma countNodes_files_aux:
  "files_are_leaves t \<Longrightarrow> files (countNodes t) = count_type_file t"
proof (induction t rule: countNodes.induct)
  case (1 n t p ch s l)
  show ?case
  proof (cases "t = ''file''")
    case True
    with "1.prems" have "child_list ch = []"
      by (simp add: files_are_leaves_def)
    with True show ?thesis by (simp add: count_type_file_node)
  next
    case False
    have "\<And>c. c \<in> set (child_list ch) \<Longrightarrow> files (countNodes c) = count_type_file c"
      using "1.IH" False files_are_leaves_child[OF "1.prems"] by blast
    then have "sum_list (map (\<lambda>c. files (countNodes c)) (child_list ch))
                 = sum_list (map count_type_file (child_list ch))"
      by (intro arg_cong[where f = sum_list]) simp
    with False show ?thesis
      by (simp add: fold_counts_files count_type_file_node)
  qed
qed

lemma countNodes_folders_aux:
  "files_are_leaves t \<Longrightarrow> folders (countNodes t) = count_type_other t"
proof (induction t rule: countNodes.induct)
  case (1 n t p ch s l)
  show ?case
  proof (cases "t = ''file''")
    case True
    with "1.prems" have "child_list ch = []"
      by (simp add: files_are_leaves_def)
    with True show ?thesis by (simp add: count_type_other_node)
  next
    case False
    have "\<And>c. c \<in> set (child_list ch) \<Longrightarrow> folders (countNodes c) = count_type_other c"
      using "1.IH" False files_are_leaves_child[OF "1.prems"] by blast
    then have "sum_list (map (\<lambda>c. folders (countNodes c)) (child_list ch))
                 = sum_list (map count_type_other (child_list ch))"
      by (intro arg_cong[where f = sum_list]) simp
    with False show ?thesis
      by (simp add: fold_counts_folders count_type_other_node)
  qed
qed

text \<open>
  Claim C10, as stated, at a node of type \<open>'file'\<close> that has a child: \<open>countNodes\<close>
  returns at the node without visiting the child, so it reports one file where the tree
  has two nodes of type \<open>'file'\<close>.
\<close>

theorem countNodes_every_tree_counterexample:
  "countNodes file_with_child = \<lparr>files = 1, folders = 0\<rparr>
   \<and> count_type_file file_with_child = 2"
  by (simp add: file_with_child_def count_type_file_def child_list_def)

text \<open>
  Claim C10, amended. For every tree in which no node of type \<open>'file'\<close> has children,
  \<open>countNodes\<close> returns as \<open>files\<close> the number of nodes (root included) whose type is
  \<open>'file'\<close> and as \<open>folders\<close> the number of nodes whose type is not \<open>'file'\<close>.
\<close>

theorem countNodes_counts:
  "files_are_leaves t \<Longrightarrow>
     files (countNodes t) = count_type_file t \<and> folders (countNodes t) = count_type_other t"
  using countNodes_files_aux countNodes_folders_aux by simp

text \<open>The theorem at a folder with a file, a folder holding a file, and an empty folder.\<close>

theorem countNodes_counts_witness:
  "files_are_leaves small_tree
   \<and> countNodes small_tree = \<lparr>files = 2, folders = 3\<rparr>
   \<and> count_type_file small_tree = 2 \<and> count_type_other small_tree = 3"
proof -
  have leaves: "files_are_leaves small_tree"
    by (simp add: small_tree_def files_are_leaves_def child_list_def)
  have run: "countNodes small_tree = \<lparr>files = 2, folders = 3\<rparr>"
    by (simp add: small_tree_def child_list_def)
  from countNodes_counts[OF leaves] leaves run show ?thesis by simp
qed

subsection \<open>Visualizer: getLanguageFromFile\<close>

lemma split_char_nonempty: "split_char c s \<noteq> []"
  by (induction s) (auto split: list.splits)

lemma split_char_no_separator:
  "c \<notin> set e \<Longrightarrow> split_char c e = [e]"
  by (induction e) auto

lemma split_char_append:
  "split_char c (b @ c # e) = split_char c b @ split_char c e"
proof (induction b)
  case Nil
  show ?case by simp
next
  case (Cons x xs)
  obtain p ps where "split_char c xs = p # ps"
    using split_char_nonempty[of c xs] by (cases "split_char c xs") auto
  with Cons show ?case by simp
qed

lemma last_split_char_dot:
  "c \<notin> set e \<Longrightarrow> last (split_char c (b @ c # e)) = e"
  by (simp add: split_char_append split_char_no_separator)

text \<open>
  Claim C5, as stated, fails twice. The table covers ten languages, not fifteen. And a
  name such as \<open>index.constructor\<close>, whose extension is not a key of the table, does not
  give \<open>'text'\<close>: the lookup finds the member that the table object inherits from
  \<open>Object.prototype\<close>, which is truthy.
\<close>

theorem extMap_at_least_15_counterexample:
  "\<not> 15 \<le> card table_languages
   \<and> map_of extMap ''constructor'' = None
   \<and> getLanguageFromFile (Some ''index.constructor'') \<noteq> Str ''text''"
  by (simp add: table_languages_def extMap_def getLanguageFromFile_def toLowerCase_def
        to_lower_char_def extMap_get_def object_prototype_members_def)

text \<open>
  Claim C5, amended. The table has twelve extensions for ten languages; a name that ends
  with a dot and an extension of the table gets that extension's language; a missing or
  empty filename gets \<open>'text'\<close>; and so does every filename whose lower-cased last
  dot-separated piece is neither a key of the table nor the name of a member inherited from
  \<open>Object.prototype\<close>.
\<close>

theorem getLanguageFromFile_table:
  "length extMap = 12 \<and> card table_languages = 10
   \<and> getLanguageFromFile None = Str ''text''
   \<and> getLanguageFromFile (Some []) = Str ''text''
   \<and> (map_of extMap e = Some l \<longrightarrow> getLanguageFromFile (Some (b @ CHR ''.'' # e)) = Str l)
   \<and> (toLowerCase (last (split_char (CHR ''.'') f)) \<notin> fst ` set extMap
        \<and> toLowerCase (last (split_char (CHR ''.'') f)) \<notin> set object_prototype_members
        \<longrightarrow> getLanguageFromFile (Some f) = Str ''text'')"
proof -
  have n: "length extMap = 12" by (simp add: extMap_def)
  have c: "card table_languages = 10" by (simp add: table_languages_def extMap_def)
  have u: "getLanguageFromFile None = Str ''text''" by (simp add: getLanguageFromFile_def)
  have u': "getLanguageFromFile (Some []) = Str ''text''" by (simp add: getLanguageFromFile_def)
  have hit: "getLanguageFromFile (Some (b @ CHR ''.'' # e)) = Str l" if "map_of extMap e = Some l"
  proof -
    from that have "(e, l) \<in> set extMap" by (rule map_of_SomeD)
    then have "CHR ''.'' \<notin> set e \<and> toLowerCase e = e"
      by (auto simp: extMap_def toLowerCase_def to_lower_char_def)
    then show ?thesis using that
      by (simp add: getLanguageFromFile_def last_split_char_dot extMap_get_def)
  qed
  have miss: "getLanguageFromFile (Some f) = Str ''text''"
    if "toLowerCase (last (split_char (CHR ''.'') f)) \<notin> fst ` set extMap"
      and "toLowerCase (last (split_char (CHR ''.'') f)) \<notin> set object_prototype_members"
  proof -
    from that(1) have "map_of extMap (toLowerCase (last (split_char (CHR ''.'') f))) = None"
      by (simp add: map_of_eq_None_iff)
    with that(2) show ?thesis
      by (simp add: getLanguageFromFile_def extMap_get_def)
  qed
  from n c u u' hit miss show ?thesis by blast
qed

text \<open>The theorem at \<open>page.tsx\<close> (a hit) and at \<open>Makefile.MK\<close> (a miss).\<close>

theorem getLanguageFromFile_table_witness:
  "map_of extMap ''tsx'' = Some ''typescript''
   \<and> getLanguageFromFile (Some ''page.tsx'') = Str ''typescript''
   \<and> toLowerCase (last (split_char (CHR ''.'') ''Makefile.MK'')) \<notin> fst ` set extMap
   \<and> toLowerCase (last (split_char (CHR ''.'') ''Makefile.MK'')) \<notin> set object_prototype_members
   \<and> getLanguageFromFile (Some ''Makefile.MK'') = Str ''text''"
proof -
  have h1: "map_of extMap ''tsx'' = Some ''typescript''" by (simp add: extMap_def)
  have h2: "toLowerCase (last (split_char (CHR ''.'') ''Makefile.MK'')) \<notin> fst ` set extMap"
    by code_simp
  have h3: "toLowerCase (last (split_char (CHR ''.'') ''Makefile.MK'')) \<notin> set object_prototype_members"
    by code_simp
  from getLanguageFromFile_table[of "''tsx''" "''typescript''" "''page''" "''Makefile.MK''"] h1 h2 h3
  show ?thesis by simp
qed

subsection \<open>Chat: splitting an answer on code fences\<close>

lemma take3_fence: "take 3 s = fence \<Longrightarrow> s = fence @ drop 3 s"
  by (metis append_take_drop_id)

lemma break_fence_decomp:
  "break_fence s = Some (before, rest) \<Longrightarrow> s = before @ fence @ rest"
proof (induction s arbitrary: before)
  case Nil
  then show ?case by simp
next
  case (Cons c cs)
  show ?case
  proof (cases "take 3 (c # cs) = fence")
    case True
    with Cons.prems have b: "before = []" and r: "rest = drop 3 (c # cs)" by simp_all
    have "c # cs = fence @ drop 3 (c # cs)" by (rule take3_fence[OF True])
    then show ?thesis unfolding b r append_Nil .
  next
    case False
    with Cons.prems obtain b where "break_fence cs = Some (b, rest)" and "before = c # b"
      by (auto split: option.splits)
    with Cons.IH show ?thesis by simp
  qed
qed

lemma match_fence_decomp:
  assumes "match_fence s = Some (m, rest)"
  shows "s = m @ rest"
proof -
  from assms have t: "take 3 s = fence"
    by (simp add: match_fence_def split: if_splits)
  with assms obtain body where b: "break_fence (drop 3 s) = Some (body, rest)"
    and m: "m = fence @ body @ fence"
    by (auto simp: match_fence_def split: option.splits)
  from break_fence_decomp[OF b] take3_fence[OF t] m show ?thesis by simp
qed

lemma split_loop_concat: "concat (split_loop acc s) = rev acc @ s"
proof (induction acc s rule: split_loop.induct)
  case (1 acc s)
  show ?case
  proof (cases "match_fence s")
    case None
    show ?thesis
    proof (cases s)
      case Nil
      with None show ?thesis by (subst split_loop.simps) simp
    next
      case (Cons c cs)
      from "1.IH"(1)[OF None Cons] have "concat (split_loop (c # acc) cs) = rev acc @ c # cs"
        by simp
      with None Cons show ?thesis by (subst split_loop.simps) simp
    qed
  next
    case (Some mr)
    obtain m rest where mr: "mr = (m, rest)" by (cases mr)
    from Some mr have s: "s = m @ rest" by (simp add: match_fence_decomp)
    from "1.IH"(2)[OF Some mr[symmetric]] have "concat (split_loop [] rest) = rest"
      by simp
    with Some mr s show ?thesis by (subst split_loop.simps) simp
  qed
qed

text \<open>
  Claim C8. Splitting an answer on code-fence boundaries loses no characters: the parts,
  concatenated in order, are the answer.
\<close>

theorem split_fences_concat: "concat (split_fences answer) = answer"
  by (simp add: split_fences_def split_loop_concat)

subsection \<open>Chat: the store and the branches\<close>

lemma modify_length [simp]: "length (modify a f h) = length h"
  by (simp add: modify_def)

lemma modify_nth_same: "a < length h \<Longrightarrow> modify a f h ! a = f (h ! a)"
  by (simp add: modify_def)

lemma modify_nth_other: "b \<noteq> a \<Longrightarrow> modify a f h ! b = h ! b"
  by (simp add: modify_def)

lemma on_risk_fields:
  "assistantMessage (on_risk r t) = assistantMessage t"
  "buffer (on_risk r t) = buffer t"
  "queued (on_risk r t) = queued t"
  "objects (ui (on_risk r t))
     = modify (assistantMessage t) (\<lambda>m. m\<lparr>risk := Some r\<rparr>) (objects (ui t))"
  "arrays (ui (on_risk r t)) = arrays (ui t)"
  "messages (ui (on_risk r t)) = messages (ui t)"
  "input (ui (on_risk r t)) = input (ui t)"
  "isLoading_chat (ui (on_risk r t)) = isLoading_chat (ui t)"
  "console (ui (on_risk r t)) = console (ui t)"
  by (simp_all add: on_risk_def)

lemma publish_fields:
  "assistantMessage (publish t) = assistantMessage t"
  "buffer (publish t) = buffer t"
  "queued (publish t) = queued t"
  "objects (ui (publish t)) = objects (ui t) @ [objects (ui t) ! assistantMessage t]"
  "arrays (ui (publish t)) = arrays (ui t)"
  "messages (ui (publish t))
     = (messages (ui t))[length (messages (ui t)) - 1 := length (objects (ui t))]"
  "input (ui (publish t)) = input (ui t)"
  "isLoading_chat (ui (publish t)) = isLoading_chat (ui t)"
  "console (ui (publish t)) = console (ui t)"
  by (simp_all add: publish_def new_message_def setMessages_def Let_def)

lemma append_delta_fields:
  "assistantMessage (append_delta d t) = assistantMessage t"
  "buffer (append_delta d t) = buffer t"
  "queued (append_delta d t) = queued t"
  "objects (ui (append_delta d t))
     = modify (assistantMessage t) (\<lambda>m. m\<lparr>content := content m @ d\<rparr>) (objects (ui t))"
  "arrays (ui (append_delta d t)) = arrays (ui t)"
  "messages (ui (append_delta d t)) = messages (ui t)"
  "input (ui (append_delta d t)) = input (ui t)"
  "isLoading_chat (ui (append_delta d t)) = isLoading_chat (ui t)"
  "console (ui (append_delta d t)) = console (ui t)"
  by (simp_all add: append_delta_def)

lemma on_citation_fields:
  "assistantMessage (on_citation c t) = assistantMessage t"
  "buffer (on_citation c t) = buffer t"
  "queued (on_citation c t) = queued t"
  "messages (ui (on_citation c t)) = messages (ui t)"
  "input (ui (on_citation c t)) = input (ui t)"
  "isLoading_chat (ui (on_citation c t)) = isLoading_chat (ui t)"
  "console (ui (on_citation c t)) = console (ui t)"
  "length (objects (ui (on_citation c t))) = length (objects (ui t))"
  by (simp_all add: on_citation_def Let_def split: option.splits)

lemma on_citation_objects:
  "objects (ui (on_citation c t))
     = (case citations (objects (ui t) ! assistantMessage t) of
          None \<Rightarrow> modify (assistantMessage t)
                    (\<lambda>m. m\<lparr>citations := Some (length (arrays (ui t)))\<rparr>) (objects (ui t))
        | Some _ \<Rightarrow> objects (ui t))"
  by (simp add: on_citation_def Let_def split: option.splits)

lemma frame_refl: "frame t t"
  by (simp add: frame_def)

lemma frame_trans: "frame t0 t \<Longrightarrow> frame t t' \<Longrightarrow> frame t0 t'"
  unfolding frame_def by (metis (no_types, lifting) le_trans less_le_trans)

lemma content_deltas_append: "content_deltas (xs @ ys) = content_deltas xs @ content_deltas ys"
  by (induction xs rule: content_deltas.induct) simp_all

text \<open>The predicates read the component state and \<open>assistantMessage\<close> only.\<close>

lemma locals_irrelevant:
  "turn_ok (t\<lparr>buffer := b\<rparr>) = turn_ok t"
  "frame t0 (t\<lparr>buffer := b\<rparr>) = frame t0 t"
  "stored (t\<lparr>buffer := b\<rparr>) = stored t"
  "shown (t\<lparr>buffer := b\<rparr>) = shown t"
  "turn_ok (t\<lparr>queued := q\<rparr>) = turn_ok t"
  "frame t0 (t\<lparr>queued := q\<rparr>) = frame t0 t"
  "stored (t\<lparr>queued := q\<rparr>) = stored t"
  "shown (t\<lparr>queued := q\<rparr>) = shown t"
  "turn_ok (t\<lparr>reads_done := n\<rparr>) = turn_ok t"
  "frame t0 (t\<lparr>reads_done := n\<rparr>) = frame t0 t"
  "stored (t\<lparr>reads_done := n\<rparr>) = stored t"
  "shown (t\<lparr>reads_done := n\<rparr>) = shown t"
  by (simp_all add: turn_ok_def frame_def stored_def shown_def)

text \<open>The updater.\<close>

lemma publish_turn_ok: "turn_ok t \<Longrightarrow> turn_ok (publish t)"
  by (simp add: turn_ok_def publish_fields last_list_update)

lemma publish_frame: "frame t (publish t)"
  by (simp add: frame_def publish_fields nth_append butlast_list_update)

lemma publish_stored: "turn_ok t \<Longrightarrow> stored (publish t) = stored t"
  by (simp add: stored_def turn_ok_def publish_fields nth_append)

lemma publish_shown: "turn_ok t \<Longrightarrow> shown (publish t) = stored t"
  by (simp add: shown_def stored_def turn_ok_def publish_fields nth_append last_list_update)

lemma run_queued_fields:
  "assistantMessage (run_queued n t) = assistantMessage t"
  "buffer (run_queued n t) = buffer t"
  "reads_done (run_queued n t) = reads_done t"
  by (induction n arbitrary: t) (simp_all add: publish_fields publish_def Let_def split: prod.splits)

lemma run_queued_turn_ok: "turn_ok t \<Longrightarrow> turn_ok (run_queued n t)"
  by (induction n arbitrary: t) (simp_all add: publish_turn_ok)

lemma run_queued_frame: "frame t (run_queued n t)"
proof (induction n arbitrary: t)
  case 0
  show ?case by (simp add: frame_refl)
next
  case (Suc n)
  have "frame t (publish t)" by (rule publish_frame)
  moreover have "frame (publish t) (run_queued n (publish t))" by (rule Suc.IH)
  ultimately show ?case by (simp add: frame_trans)
qed

lemma run_queued_stored: "turn_ok t \<Longrightarrow> stored (run_queued n t) = stored t"
  by (induction n arbitrary: t) (simp_all add: publish_turn_ok publish_stored)

lemma run_queued_shown: "turn_ok t \<Longrightarrow> shown (run_queued (Suc n) t) = stored t"
proof (induction n arbitrary: t)
  case 0
  then show ?case by (simp add: publish_shown)
next
  case (Suc n)
  have "shown (run_queued (Suc n) (publish t)) = stored (publish t)"
    by (rule Suc.IH) (rule publish_turn_ok[OF Suc.prems])
  then show ?case by (simp add: publish_stored[OF Suc.prems])
qed

text \<open>A render.\<close>

lemma render_fields:
  "assistantMessage (render t) = assistantMessage t"
  "buffer (render t) = buffer t"
  "reads_done (render t) = reads_done t"
  "queued (render t) = 0"
  by (simp_all add: render_def run_queued_fields)

lemma render_turn_ok: "turn_ok t \<Longrightarrow> turn_ok (render t)"
  by (simp add: render_def locals_irrelevant run_queued_turn_ok)

lemma render_frame: "frame t (render t)"
  by (simp add: render_def locals_irrelevant run_queued_frame)

lemma render_stored: "turn_ok t \<Longrightarrow> stored (render t) = stored t"
  by (simp add: render_def locals_irrelevant run_queued_stored)

lemma render_shown:
  "turn_ok t \<Longrightarrow> shown (render t) = (if queued t = 0 then shown t else stored t)"
proof (cases "queued t")
  case 0
  then show ?thesis by (simp add: render_def locals_irrelevant)
next
  case (Suc n)
  assume "turn_ok t"
  from run_queued_shown[OF this, of n] Suc show ?thesis
    by (simp add: render_def locals_irrelevant)
qed

text \<open>The \<open>content\<close> branch.\<close>

lemma append_delta_turn_ok: "turn_ok t \<Longrightarrow> turn_ok (append_delta d t)"
  by (simp add: turn_ok_def append_delta_fields)

lemma append_delta_frame: "frame t (append_delta d t)"
  by (simp add: frame_def append_delta_fields modify_nth_other)

lemma append_delta_stored:
  "turn_ok t \<Longrightarrow> stored (append_delta d t) = (stored t)\<lparr>content := content (stored t) @ d\<rparr>"
  by (simp add: stored_def turn_ok_def append_delta_fields modify_nth_same)

lemma append_delta_shown_citations:
  "turn_ok t \<Longrightarrow> citations (shown (append_delta d t)) = citations (shown t)"
  by (cases "last (messages (ui t)) = assistantMessage t")
     (simp_all add: shown_def turn_ok_def append_delta_fields modify_nth_same modify_nth_other)

lemma on_content_cases:
  "on_content sched d t
     = (if queued t = 0 \<and> at_call sched (updates t) then publish (append_delta d t)
        else (append_delta d t)\<lparr>queued := queued t + 1\<rparr>)"
  by (simp add: on_content_def Let_def)

lemma on_content_fields:
  "assistantMessage (on_content sched d t) = assistantMessage t"
  "buffer (on_content sched d t) = buffer t"
  by (simp_all add: on_content_cases publish_fields append_delta_fields)

lemma on_content_turn_ok: "turn_ok t \<Longrightarrow> turn_ok (on_content sched d t)"
  by (simp add: on_content_cases locals_irrelevant publish_turn_ok append_delta_turn_ok)

lemma on_content_frame: "frame t (on_content sched d t)"
proof -
  have "frame t (publish (append_delta d t))"
    using append_delta_frame publish_frame by (rule frame_trans)
  then show ?thesis
    by (simp add: on_content_cases locals_irrelevant append_delta_frame)
qed

lemma on_content_stored:
  "turn_ok t \<Longrightarrow>
     stored (on_content sched d t) = (stored t)\<lparr>content := content (stored t) @ d\<rparr>"
  by (simp add: on_content_cases locals_irrelevant publish_stored append_delta_turn_ok
        append_delta_stored)

lemma on_content_shown:
  "turn_ok t \<Longrightarrow> queued (on_content sched d t) = 0 \<Longrightarrow>
     shown (on_content sched d t) = stored (on_content sched d t)"
  by (simp add: on_content_cases locals_irrelevant publish_stored publish_shown
        append_delta_turn_ok append_delta_fields publish_fields split: if_splits)

lemma on_content_shown_citations:
  "turn_ok t \<Longrightarrow>
     citations (shown (on_content sched d t)) = citations (shown t)
     \<or> citations (shown (on_content sched d t)) = citations (stored t)"
  by (simp add: on_content_cases locals_irrelevant publish_shown append_delta_turn_ok
        append_delta_stored append_delta_shown_citations)

lemma on_risk_turn_ok: "turn_ok t \<Longrightarrow> turn_ok (on_risk r t)"
  by (simp add: turn_ok_def on_risk_fields)

lemma on_risk_frame: "frame t (on_risk r t)"
  by (simp add: frame_def on_risk_fields modify_nth_other)

lemma on_risk_stored:
  "turn_ok t \<Longrightarrow> stored (on_risk r t) = (stored t)\<lparr>risk := Some r\<rparr>"
  by (simp add: stored_def turn_ok_def on_risk_fields modify_nth_same)

lemma on_risk_shown:
  "turn_ok t \<Longrightarrow>
     shown (on_risk r t)
       = (if last (messages (ui t)) = assistantMessage t then (shown t)\<lparr>risk := Some r\<rparr>
          else shown t)"
  by (simp add: shown_def turn_ok_def on_risk_fields modify_nth_same modify_nth_other)

lemma on_citation_turn_ok: "turn_ok t \<Longrightarrow> turn_ok (on_citation c t)"
  by (simp add: turn_ok_def on_citation_fields)

lemma on_citation_frame: "frame t (on_citation c t)"
  by (simp add: frame_def on_citation_fields on_citation_objects modify_nth_other
           split: option.splits)

lemma on_citation_content:
  "turn_ok t \<Longrightarrow> content (stored (on_citation c t)) = content (stored t)"
  by (simp add: stored_def turn_ok_def on_citation_fields on_citation_objects modify_nth_same
           split: option.splits)

lemma on_citation_shown_content:
  "turn_ok t \<Longrightarrow> content (shown (on_citation c t)) = content (shown t)"
  by (cases "last (messages (ui t)) = assistantMessage t")
     (simp_all add: shown_def turn_ok_def on_citation_fields on_citation_objects
        modify_nth_same modify_nth_other split: option.splits)

subsection \<open>Chat: the invariant of the read loop\<close>

lemma tracksD:
  assumes "tracks t0 cs t"
  shows "turn_ok t" and "frame t0 t"
    and "content (stored t) = content (stored t0) @ content_deltas cs"
    and "queued t = 0 \<Longrightarrow> content (shown t) = content (stored t)"
    and "list_all (\<lambda>c. \<not> is_citation c) cs \<Longrightarrow> citations (stored t) = citations (stored t0)"
    and "list_all (\<lambda>c. \<not> is_citation c) cs \<Longrightarrow> citations (shown t0) = None
           \<Longrightarrow> citations (stored t0) = None \<Longrightarrow> citations (shown t) = None"
  using assms unfolding tracks_def by blast+

lemma tracksI:
  assumes "turn_ok t" and "frame t0 t"
    and "content (stored t) = content (stored t0) @ content_deltas cs"
    and "queued t = 0 \<Longrightarrow> content (shown t) = content (stored t)"
    and "list_all (\<lambda>c. \<not> is_citation c) cs \<Longrightarrow> citations (stored t) = citations (stored t0)"
    and "list_all (\<lambda>c. \<not> is_citation c) cs \<Longrightarrow> citations (shown t0) = None
           \<Longrightarrow> citations (stored t0) = None \<Longrightarrow> citations (shown t) = None"
  shows "tracks t0 cs t"
  using assms unfolding tracks_def by blast

lemma frameD:
  assumes "frame t t'"
  shows "assistantMessage t' = assistantMessage t"
    and "length (objects (ui t)) \<le> length (objects (ui t'))"
    and "a < length (objects (ui t)) \<Longrightarrow> a \<noteq> assistantMessage t
           \<Longrightarrow> objects (ui t') ! a = objects (ui t) ! a"
    and "length (messages (ui t')) = length (messages (ui t))"
    and "butlast (messages (ui t')) = butlast (messages (ui t))"
  using assms unfolding frame_def by blast+

lemma no_citation_snoc:
  "list_all (\<lambda>c. \<not> is_citation c) (cs @ [c])
     \<longleftrightarrow> list_all (\<lambda>c. \<not> is_citation c) cs \<and> \<not> is_citation c"
  by simp

lemma tracks_init:
  "turn_ok t \<Longrightarrow> content (shown t) = content (stored t) \<Longrightarrow> tracks t [] t"
  by (simp add: tracks_def frame_refl)

lemma tracks_content:
  assumes "tracks t0 cs t"
  shows "tracks t0 (cs @ [ContentChunk d]) (on_content sched d t)"
proof (rule tracksI)
  note ok = tracksD(1)[OF assms]
  show "turn_ok (on_content sched d t)" using ok by (rule on_content_turn_ok)
  show "frame t0 (on_content sched d t)"
    using tracksD(2)[OF assms] on_content_frame by (rule frame_trans)
  show "content (stored (on_content sched d t))
          = content (stored t0) @ content_deltas (cs @ [ContentChunk d])"
    using tracksD(3)[OF assms] by (simp add: on_content_stored[OF ok] content_deltas_append)
  show "content (shown (on_content sched d t)) = content (stored (on_content sched d t))"
    if "queued (on_content sched d t) = 0"
    using on_content_shown[OF ok that] by simp
  show "citations (stored (on_content sched d t)) = citations (stored t0)"
    if "list_all (\<lambda>c. \<not> is_citation c) (cs @ [ContentChunk d])"
    using tracksD(5)[OF assms] that by (simp add: on_content_stored[OF ok])
  show "citations (shown (on_content sched d t)) = None"
    if n: "list_all (\<lambda>c. \<not> is_citation c) (cs @ [ContentChunk d])"
      and a: "citations (shown t0) = None" and b: "citations (stored t0) = None"
  proof -
    from n have n': "list_all (\<lambda>c. \<not> is_citation c) cs" by simp
    have "citations (shown t) = None" by (rule tracksD(6)[OF assms n' a b])
    moreover have "citations (stored t) = None" using tracksD(5)[OF assms n'] b by simp
    ultimately show ?thesis using on_content_shown_citations[OF ok, of sched d] by auto
  qed
qed

lemma tracks_risk:
  assumes "tracks t0 cs t"
  shows "tracks t0 (cs @ [RiskChunk r]) (on_risk r t)"
proof (rule tracksI)
  note ok = tracksD(1)[OF assms]
  show "turn_ok (on_risk r t)" using ok by (rule on_risk_turn_ok)
  show "frame t0 (on_risk r t)" using tracksD(2)[OF assms] on_risk_frame by (rule frame_trans)
  show "content (stored (on_risk r t)) = content (stored t0) @ content_deltas (cs @ [RiskChunk r])"
    using tracksD(3)[OF assms] by (simp add: on_risk_stored[OF ok] content_deltas_append)
  show "content (shown (on_risk r t)) = content (stored (on_risk r t))"
    if "queued (on_risk r t) = 0"
  proof -
    from that have "queued t = 0" by (simp add: on_risk_fields)
    from tracksD(4)[OF assms this] show ?thesis
      by (simp add: on_risk_shown[OF ok] on_risk_stored[OF ok])
  qed
  show "citations (stored (on_risk r t)) = citations (stored t0)"
    if "list_all (\<lambda>c. \<not> is_citation c) (cs @ [RiskChunk r])"
    using tracksD(5)[OF assms] that by (simp add: on_risk_stored[OF ok])
  show "citations (shown (on_risk r t)) = None"
    if n: "list_all (\<lambda>c. \<not> is_citation c) (cs @ [RiskChunk r])"
      and a: "citations (shown t0) = None" and b: "citations (stored t0) = None"
  proof -
    from n have n': "list_all (\<lambda>c. \<not> is_citation c) cs" by simp
    from tracksD(6)[OF assms n' a b] show ?thesis
      by (simp add: on_risk_shown[OF ok])
  qed
qed

lemma tracks_citation:
  assumes "tracks t0 cs t"
  shows "tracks t0 (cs @ [CitationChunk c]) (on_citation c t)"
proof (rule tracksI)
  note ok = tracksD(1)[OF assms]
  show "turn_ok (on_citation c t)" using ok by (rule on_citation_turn_ok)
  show "frame t0 (on_citation c t)"
    using tracksD(2)[OF assms] on_citation_frame by (rule frame_trans)
  show "content (stored (on_citation c t))
          = content (stored t0) @ content_deltas (cs @ [CitationChunk c])"
    using tracksD(3)[OF assms] by (simp add: on_citation_content[OF ok] content_deltas_append)
  show "content (shown (on_citation c t)) = content (stored (on_citation c t))"
    if "queued (on_citation c t) = 0"
  proof -
    from that have "queued t = 0" by (simp add: on_citation_fields)
    from tracksD(4)[OF assms this] show ?thesis
      by (simp add: on_citation_shown_content[OF ok] on_citation_content[OF ok])
  qed
  show "citations (stored (on_citation c t)) = citations (stored t0)"
    if "list_all (\<lambda>c. \<not> is_citation c) (cs @ [CitationChunk c])"
    using that by simp
  show "citations (shown (on_citation c t)) = None"
    if "list_all (\<lambda>c. \<not> is_citation c) (cs @ [CitationChunk c])"
    using that by simp
qed

lemma tracks_other:
  assumes "tracks t0 cs t" and "content_deltas [c] = []" and "\<not> is_citation c"
  shows "tracks t0 (cs @ [c]) t"
  using assms by (simp add: tracks_def content_deltas_append)

lemma tracks_render:
  assumes "tracks t0 cs t"
  shows "tracks t0 cs (render t)"
proof (rule tracksI)
  note ok = tracksD(1)[OF assms]
  show "turn_ok (render t)" using ok by (rule render_turn_ok)
  show "frame t0 (render t)" using tracksD(2)[OF assms] render_frame by (rule frame_trans)
  show "content (stored (render t)) = content (stored t0) @ content_deltas cs"
    using tracksD(3)[OF assms] by (simp add: render_stored[OF ok])
  show "content (shown (render t)) = content (stored (render t))"
    using tracksD(4)[OF assms] by (simp add: render_shown[OF ok] render_stored[OF ok])
  show "citations (stored (render t)) = citations (stored t0)"
    if "list_all (\<lambda>c. \<not> is_citation c) cs"
    using tracksD(5)[OF assms that] by (simp add: render_stored[OF ok])
  show "citations (shown (render t)) = None"
    if n: "list_all (\<lambda>c. \<not> is_citation c) cs"
      and a: "citations (shown t0) = None" and b: "citations (stored t0) = None"
    using tracksD(6)[OF assms n a b] tracksD(5)[OF assms n] b
    by (simp add: render_shown[OF ok])
qed

lemma console_irrelevant:
  "turn_ok (t\<lparr>ui := console_error label e (ui t)\<rparr>) = turn_ok t"
  "frame t0 (t\<lparr>ui := console_error label e (ui t)\<rparr>) = frame t0 t"
  "stored (t\<lparr>ui := console_error label e (ui t)\<rparr>) = stored t"
  "shown (t\<lparr>ui := console_error label e (ui t)\<rparr>) = shown t"
  by (simp_all add: turn_ok_def frame_def stored_def shown_def console_error_def)

lemma tracks_ui_console:
  "tracks t0 cs t \<Longrightarrow> tracks t0 cs (t\<lparr>ui := console_error label e (ui t)\<rparr>)"
  unfolding tracks_def by (simp add: console_irrelevant)

lemma tracks_next_read:
  "tracks t0 cs t \<Longrightarrow> tracks t0 cs (t\<lparr>buffer := b, reads_done := n\<rparr>)"
  unfolding tracks_def by (simp add: locals_irrelevant)

lemma tracks_try_chunk:
  assumes "tracks t0 cs t"
  shows "tracks t0 (cs @ (case parse d of None \<Rightarrow> [] | Some c \<Rightarrow> [c]))
           (try_chunk parse sched d t)"
proof (cases "parse d")
  case None
  with assms show ?thesis by (simp add: try_chunk_def tracks_ui_console)
next
  case (Some c)
  show ?thesis
  proof (cases c)
    case (ContentChunk x)
    with Some assms show ?thesis by (simp add: try_chunk_def tracks_content)
  next
    case (CitationChunk x)
    with Some assms show ?thesis by (simp add: try_chunk_def tracks_citation)
  next
    case (RiskChunk x)
    with Some assms show ?thesis by (simp add: try_chunk_def tracks_risk)
  next
    case (ErrorChunk x)
    have "tracks t0 (cs @ [ErrorChunk x])
            (t\<lparr>ui := console_error ''Error parsing chunk:'' (Error x) (ui t)\<rparr>)"
      by (intro tracks_ui_console tracks_other assms) simp_all
    with Some ErrorChunk show ?thesis by (simp add: try_chunk_def)
  next
    case OtherChunk
    have "tracks t0 (cs @ [OtherChunk]) t"
      by (intro tracks_other assms) simp_all
    with Some OtherChunk show ?thesis by (simp add: try_chunk_def)
  qed
qed

lemma buffer_try_chunk: "buffer (try_chunk parse sched d t) = buffer t"
proof (cases "parse d")
  case None
  then show ?thesis by (simp add: try_chunk_def)
next
  case (Some c)
  then show ?thesis
    by (cases c) (simp_all add: try_chunk_def on_content_fields on_citation_fields on_risk_fields)
qed

lemma tracks_process_lines:
  "tracks t0 cs t \<Longrightarrow>
     tracks t0 (cs @ batch_chunks parse ls) (process_lines parse sched ls t)"
proof (induction ls arbitrary: cs t)
  case Nil
  then show ?case by simp
next
  case (Cons l ls)
  show ?case
  proof (cases "take 6 l = ''data: ''")
    case False
    with Cons show ?thesis by simp
  next
    case True
    show ?thesis
    proof (cases "drop 6 l = ''[DONE]''")
      case True
      with \<open>take 6 l = ''data: ''\<close> Cons.prems show ?thesis by simp
    next
      case False
      from Cons.IH[OF tracks_try_chunk[OF Cons.prems, where parse=parse and sched=sched
                           and d="drop 6 l"]]
      show ?thesis using False \<open>take 6 l = ''data: ''\<close> by simp
    qed
  qed
qed

lemma buffer_process_lines: "buffer (process_lines parse sched ls t) = buffer t"
  by (induction ls arbitrary: t) (simp_all add: buffer_try_chunk Let_def)

lemma tracks_read_loop:
  "tracks t0 cs t \<Longrightarrow>
     tracks t0 (cs @ received parse (buffer t) reads) (read_loop parse sched reads t)"
proof (induction reads arbitrary: cs t)
  case Nil
  then show ?case by simp
next
  case (Cons v later)
  let ?t0 = "if render_before_read sched (reads_done t) then render t else t"
  let ?pieces = "split_char newline (buffer t @ v)"
  let ?t1 = "process_lines parse sched (butlast ?pieces)
               (?t0\<lparr>buffer := last ?pieces, reads_done := reads_done ?t0 + 1\<rparr>)"
  have b0: "buffer ?t0 = buffer t" by (simp add: render_fields)
  have "tracks t0 cs ?t0" using Cons.prems by (simp add: tracks_render)
  then have "tracks t0 (cs @ batch_chunks parse (butlast ?pieces)) ?t1"
    by (intro tracks_process_lines tracks_next_read)
  from Cons.IH[OF this] have
    "tracks t0 ((cs @ batch_chunks parse (butlast ?pieces)) @ received parse (buffer ?t1) later)
       (read_loop parse sched later ?t1)" .
  moreover have "buffer ?t1 = last ?pieces" by (simp add: buffer_process_lines)
  ultimately show ?case by (simp add: Let_def b0)
qed

lemma begin_turn_fields:
  "assistantMessage (begin_turn now st) = length (objects st)"
  "buffer (begin_turn now st) = []"
  "objects (ui (begin_turn now st))
     = objects st @ [\<lparr>msg_id = toString (now + 1), role = Assistant, content = [],
                      citations = None, risk = None, timestamp = now\<rparr>]"
  "messages (ui (begin_turn now st)) = messages st @ [length (objects st)]"
  "arrays (ui (begin_turn now st)) = arrays st"
  "queued (begin_turn now st) = 0"
  by (simp_all add: begin_turn_def append_message_def new_message_def setMessages_def)

lemma begin_turn_ok: "turn_ok (begin_turn now st)"
  by (simp add: turn_ok_def begin_turn_fields)

lemma begin_turn_stored:
  "stored (begin_turn now st)
     = \<lparr>msg_id = toString (now + 1), role = Assistant, content = [],
        citations = None, risk = None, timestamp = now\<rparr>"
  by (simp add: stored_def begin_turn_fields)

lemma begin_turn_shown: "shown (begin_turn now st) = stored (begin_turn now st)"
  by (simp add: shown_def stored_def begin_turn_fields)

lemma stream_turn_tracks:
  "tracks (begin_turn now st) (received parse [] reads) (stream_turn parse sched now reads st)"
proof -
  have "tracks (begin_turn now st) [] (begin_turn now st)"
    by (rule tracks_init) (simp_all add: begin_turn_ok begin_turn_shown)
  from tracks_read_loop[OF this, of parse reads sched]
  have "tracks (begin_turn now st) (received parse [] reads)
          (read_loop parse sched reads (begin_turn now st))"
    by (simp add: begin_turn_fields)
  then show ?thesis
    unfolding stream_turn_def by (rule tracks_render)
qed

lemma stream_turn_queued: "queued (stream_turn parse sched now reads st) = 0"
  by (simp add: stream_turn_def render_fields)

lemma stream_turn_stored_content:
  "content (stored (stream_turn parse sched now reads st)) = content_deltas (received parse [] reads)"
  using tracksD(3)[OF stream_turn_tracks[where now=now and st=st and parse=parse and reads=reads and sched=sched]]
  by (simp add: begin_turn_stored)

lemma stream_turn_shown_content:
  "content (shown (stream_turn parse sched now reads st)) = content_deltas (received parse [] reads)"
  using tracksD(4)[OF stream_turn_tracks[where now=now and st=st and parse=parse and reads=reads and sched=sched]
          stream_turn_queued]
  by (simp add: stream_turn_stored_content)

lemma stream_turn_messages:
  obtains x where "messages (ui (stream_turn parse sched now reads st)) = messages st @ [x]"
proof -
  let ?t = "stream_turn parse sched now reads st"
  have ok: "turn_ok ?t" and fr: "frame (begin_turn now st) ?t"
    by (rule tracksD[OF stream_turn_tracks])+
  from ok have ne: "messages (ui ?t) \<noteq> []" by (simp add: turn_ok_def)
  from frameD(5)[OF fr] have "butlast (messages (ui ?t)) = messages st"
    by (simp add: begin_turn_fields)
  with append_butlast_last_id[OF ne]
  have "messages (ui ?t) = messages st @ [last (messages (ui ?t))]" by metis
  then show thesis by (rule that)
qed

lemma stream_turn_old_objects:
  assumes "a < length (objects st)"
  shows "objects (ui (stream_turn parse sched now reads st)) ! a = objects st ! a"
proof -
  have fr: "frame (begin_turn now st) (stream_turn parse sched now reads st)"
    by (rule tracksD[OF stream_turn_tracks])
  have "objects (ui (stream_turn parse sched now reads st)) ! a = objects (ui (begin_turn now st)) ! a"
    using assms by (intro frameD(3)[OF fr]) (simp_all add: begin_turn_fields)
  with assms show ?thesis by (simp add: begin_turn_fields nth_append)
qed

lemma stream_turn_last_valid:
  "last (messages (ui (stream_turn parse sched now reads st)))
     < length (objects (ui (stream_turn parse sched now reads st)))"
  using tracksD(1)[OF stream_turn_tracks[where now=now and st=st and parse=parse and reads=reads and sched=sched]]
  by (simp add: turn_ok_def)

lemma stream_turn_length:
  "length (objects st) < length (objects (ui (stream_turn parse sched now reads st)))"
  using frameD(2)[OF tracksD(2)[OF stream_turn_tracks[where now=now and st=st and parse=parse and reads=reads and sched=sched]]]
  by (simp add: begin_turn_fields)

subsection \<open>Chat: a whole turn\<close>

lemma handleSubmit_Done:
  assumes "trim (input st) \<noteq> []" and "\<not> isLoading_chat st"
  shows "handleSubmit parse sched clock (Body reads Done) st
           = (ui (stream_turn parse sched (assistant_now clock) reads (user_sent clock st)))
               \<lparr>isLoading_chat := False\<rparr>"
  using assms
  by (simp add: handleSubmit_def try_block_def append_message_def new_message_def
        setMessages_def user_sent_def)

lemma handleSubmit_ReadFailed:
  assumes "trim (input st) \<noteq> []" and "\<not> isLoading_chat st"
  shows "handleSubmit parse sched clock (Body reads ReadFailed) st
           = (let st3 = ui (stream_turn parse sched (assistant_now clock) reads (user_sent clock st))
              in st3\<lparr>objects := objects st3 @ [\<lparr>msg_id = toString (error_now clock + 1),
                                                  role = Assistant, content = error_text,
                                                  citations = None, risk = None,
                                                  timestamp = error_now clock\<rparr>],
                    messages := messages st3 @ [length (objects st3)],
                    console := console st3 @ [(''Chat error:'', NetworkError)],
                    isLoading_chat := False\<rparr>)"
  using assms
  by (simp add: handleSubmit_def try_block_def append_message_def new_message_def
        setMessages_def user_sent_def console_error_def Let_def)

lemma user_sent_fields:
  "objects (user_sent clock st)
     = objects st @ [\<lparr>msg_id = toString (user_now clock), role = User,
                       content = input st, citations = None, risk = None,
                       timestamp = user_now clock\<rparr>]"
  "messages (user_sent clock st) = messages st @ [length (objects st)]"
  by (simp_all add: user_sent_def)

lemma turn_texts:
  obtains x where
    "messages (ui (stream_turn parse sched (assistant_now clock) reads (user_sent clock st)))
       = messages st @ [length (objects st), x]"
    and "content (objects (ui (stream_turn parse sched (assistant_now clock) reads (user_sent clock st)))
                    ! length (objects st)) = input st"
    and "objects (ui (stream_turn parse sched (assistant_now clock) reads (user_sent clock st))) ! x
           = shown (stream_turn parse sched (assistant_now clock) reads (user_sent clock st))"
    and "length (objects st)
           < length (objects (ui (stream_turn parse sched (assistant_now clock) reads (user_sent clock st))))"
    and "x < length (objects (ui (stream_turn parse sched (assistant_now clock) reads (user_sent clock st))))"
proof -
  let ?t = "stream_turn parse sched (assistant_now clock) reads (user_sent clock st)"
  obtain x where m: "messages (ui ?t) = messages (user_sent clock st) @ [x]"
    by (rule stream_turn_messages)
  then have 1: "messages (ui ?t) = messages st @ [length (objects st), x]"
    by (simp add: user_sent_fields)
  have v: "length (objects st) < length (objects (user_sent clock st))"
    by (simp add: user_sent_fields)
  have eq: "objects (ui ?t) ! length (objects st)
              = objects (user_sent clock st) ! length (objects st)"
    by (rule stream_turn_old_objects[OF v])
  have 2: "content (objects (ui ?t) ! length (objects st)) = input st"
    unfolding eq by (simp add: user_sent_fields)
  have 3: "objects (ui ?t) ! x = shown ?t"
    by (simp add: shown_def m)
  have 4: "length (objects st) < length (objects (ui ?t))"
    using stream_turn_length[where st="user_sent clock st" and parse=parse and sched=sched
            and now="assistant_now clock" and reads=reads]
    by (simp add: user_sent_fields)
  have 5: "x < length (objects (ui ?t))"
    using stream_turn_last_valid[where st="user_sent clock st" and parse=parse and sched=sched
            and now="assistant_now clock" and reads=reads]
    by (simp add: m)
  from that[OF 1 2 3 4 5] show thesis .
qed

lemma handleSubmit_texts:
  assumes "trim (input st) \<noteq> []" and "\<not> isLoading_chat st"
  shows "drop (length (messages st)) (texts (handleSubmit parse sched clock (Body reads ending) st))
           = [input st, content_deltas (received parse [] reads)]
             @ (case ending of Done \<Rightarrow> [] | ReadFailed \<Rightarrow> [error_text])"
proof -
  let ?t = "stream_turn parse sched (assistant_now clock) reads (user_sent clock st)"
  obtain x where m: "messages (ui ?t) = messages st @ [length (objects st), x]"
    and u: "content (objects (ui ?t) ! length (objects st)) = input st"
    and s: "objects (ui ?t) ! x = shown ?t"
    and lu: "length (objects st) < length (objects (ui ?t))"
    and lx: "x < length (objects (ui ?t))"
    by (rule turn_texts)
  have c: "content (objects (ui ?t) ! x) = content_deltas (received parse [] reads)"
    by (simp add: s stream_turn_shown_content)
  show ?thesis
  proof (cases ending)
    case Done
    show ?thesis
      unfolding Done handleSubmit_Done[OF assms] texts_def
      by (simp add: m u c)
  next
    case ReadFailed
    show ?thesis
      unfolding ReadFailed handleSubmit_ReadFailed[OF assms] texts_def
      using lu lx by (simp add: Let_def m u c nth_append)
  qed
qed

subsection \<open>Chat: the events of the whole stream\<close>

lemma map_filter_Nil [simp]: "List.map_filter f [] = []"
  by (simp add: List.map_filter_def)

lemma map_filter_Cons:
  "List.map_filter f (x # xs) = (case f x of None \<Rightarrow> [] | Some y \<Rightarrow> [y]) @ List.map_filter f xs"
  by (simp add: List.map_filter_def split: option.splits)

lemma map_filter_append:
  "List.map_filter f (xs @ ys) = List.map_filter f xs @ List.map_filter f ys"
  by (simp add: List.map_filter_def)

lemma map_filter_quiet:
  "list_all (\<lambda>x. f x = None) xs \<Longrightarrow> List.map_filter f xs = []"
  by (induction xs) (simp_all add: map_filter_Cons)

lemma quiet_all: "list_all (\<lambda>x. chunk_of parse x = None) ls \<Longrightarrow> quiet_after_done parse ls"
  by (induction ls) simp_all

lemma quiet_after_done_append:
  "quiet_after_done parse (xs @ ys) \<Longrightarrow> quiet_after_done parse ys"
  by (induction xs) (auto simp: quiet_all split: if_splits)

lemma chunk_of_done: "is_done l \<Longrightarrow> chunk_of parse l = None"
  by (simp add: is_done_def chunk_of_def)

lemma batch_chunks_step:
  "batch_chunks parse (l # ls)
     = (if is_done l then []
        else (case chunk_of parse l of None \<Rightarrow> [] | Some c \<Rightarrow> [c]) @ batch_chunks parse ls)"
  by (simp add: is_done_def chunk_of_def)

lemma batch_chunks_quiet:
  "quiet_after_done parse (xs @ ys) \<Longrightarrow>
     batch_chunks parse xs = List.map_filter (chunk_of parse) xs"
proof (induction xs)
  case Nil
  show ?case by simp
next
  case (Cons l ls)
  show ?case
  proof (cases "is_done l")
    case True
    with Cons.prems have "list_all (\<lambda>x. chunk_of parse x = None) ls" by simp
    then have "List.map_filter (chunk_of parse) ls = []" by (rule map_filter_quiet)
    with True show ?thesis
      by (simp only: batch_chunks_step map_filter_Cons chunk_of_done if_True option.case append_Nil)
  next
    case False
    with Cons.prems have "quiet_after_done parse (ls @ ys)" by simp
    from Cons.IH[OF this] False show ?thesis
      by (simp only: batch_chunks_step map_filter_Cons if_False)
  qed
qed

lemma split_char_append_general:
  "split_char c (a @ b)
     = butlast (split_char c a) @ split_char c (last (split_char c a) @ b)"
proof (induction a)
  case Nil
  show ?case by simp
next
  case (Cons x xs)
  obtain p ps where s: "split_char c xs = p # ps"
    using split_char_nonempty[of c xs] by (cases "split_char c xs") auto
  show ?case
  proof (cases "x = c")
    case True
    with Cons s show ?thesis by simp
  next
    case False
    show ?thesis
    proof (cases ps)
      case Nil
      obtain q qs where t: "split_char c (p @ b) = q # qs"
        using split_char_nonempty[of c "p @ b"] by (cases "split_char c (p @ b)") auto
      from Cons s Nil have "split_char c (xs @ b) = q # qs" by (simp add: t)
      with False s Nil t show ?thesis by simp
    next
      case (Cons y ys)
      with False s Cons.IH show ?thesis by simp
    qed
  qed
qed

lemma lines_append:
  "butlast (split_char c (a @ b))
     = butlast (split_char c a) @ butlast (split_char c (last (split_char c a) @ b))"
  by (simp add: split_char_append_general[of c a b] butlast_append split_char_nonempty)

lemma last_split_char_no_separator: "c \<notin> set (last (split_char c s))"
proof (induction s)
  case Nil
  show ?case by simp
next
  case (Cons x xs)
  obtain p ps where s: "split_char c xs = p # ps"
    using split_char_nonempty[of c xs] by (cases "split_char c xs") auto
  with Cons show ?case by (cases ps) auto
qed

lemma received_whole_stream:
  "newline \<notin> set buf \<Longrightarrow>
   quiet_after_done parse (butlast (split_char newline (buf @ concat reads))) \<Longrightarrow>
     received parse buf reads
       = List.map_filter (chunk_of parse) (butlast (split_char newline (buf @ concat reads)))"
proof (induction reads arbitrary: buf)
  case Nil
  then show ?case by (simp add: split_char_no_separator)
next
  case (Cons v later)
  let ?pieces = "split_char newline (buf @ v)"
  have dec: "butlast (split_char newline (buf @ concat (v # later)))
               = butlast ?pieces @ butlast (split_char newline (last ?pieces @ concat later))"
    using lines_append[of newline "buf @ v" "concat later"] by simp
  from Cons.prems(2) have q: "quiet_after_done parse
        (butlast ?pieces @ butlast (split_char newline (last ?pieces @ concat later)))"
    by (simp only: dec)
  have 1: "batch_chunks parse (butlast ?pieces) = List.map_filter (chunk_of parse) (butlast ?pieces)"
    by (rule batch_chunks_quiet[OF q])
  have 2: "received parse (last ?pieces) later
             = List.map_filter (chunk_of parse)
                 (butlast (split_char newline (last ?pieces @ concat later)))"
    by (rule Cons.IH[OF last_split_char_no_separator quiet_after_done_append[OF q]])
  show ?case
    unfolding dec by (simp add: Let_def 1 2 map_filter_append)
qed

lemma received_stream_events:
  "quiet_after_done parse (stream_lines reads) \<Longrightarrow>
     received parse [] reads = stream_events parse reads"
  using received_whole_stream[of "[]" parse reads]
  by (simp add: stream_lines_def stream_events_def)

text \<open>
  Claim C2. For every streamed turn and every schedule of the updaters, the content deltas
  of the received content events, concatenated in the order received, are the text stored
  in the assistant message and the text of the message shown for it; the turn adds to the
  messages shown the question, that text, and the failure text when the stream breaks.
  When no event follows the sentinel, the received events are the events of the whole
  stream text.
\<close>

theorem content_reconstructs_answer:
  "content (stored (stream_turn parse sched now reads st)) = content_deltas (received parse [] reads)
   \<and> content (shown (stream_turn parse sched now reads st)) = content_deltas (received parse [] reads)
   \<and> (trim (input st) \<noteq> [] \<and> \<not> isLoading_chat st \<longrightarrow>
        drop (length (messages st)) (texts (handleSubmit parse sched clock (Body reads ending) st))
          = [input st, content_deltas (received parse [] reads)]
            @ (case ending of Done \<Rightarrow> [] | ReadFailed \<Rightarrow> [error_text]))
   \<and> (quiet_after_done parse (stream_lines reads) \<longrightarrow>
        received parse [] reads = stream_events parse reads)"
  using stream_turn_stored_content[where parse=parse and sched=sched and now=now
      and reads=reads and st=st]
    stream_turn_shown_content[where parse=parse and sched=sched and now=now
      and reads=reads and st=st]
    handleSubmit_texts[where st=st and parse=parse and sched=sched and clock=clock
      and reads=reads and ending=ending]
    received_stream_events[of parse reads]
  by blast

text \<open>
  The theorem at a stream of two content events, a risk event and the sentinel, cut into
  two reads in the middle of a line, whose reader fails at the end, with a render between
  the reads.
\<close>

theorem content_reconstructs_answer_witness:
  "trim (input sample_chat) \<noteq> [] \<and> \<not> isLoading_chat sample_chat
   \<and> quiet_after_done sample_parse (stream_lines split_reads)
   \<and> stream_events sample_parse split_reads
       = [ContentChunk ''A'', ContentChunk ''B'',
          RiskChunk \<lparr>level = Low, risk_description = ''grounded''\<rparr>]
   \<and> received sample_parse [] split_reads = stream_events sample_parse split_reads
   \<and> drop 1 (texts (handleSubmit sample_parse render_between_reads sample_clock (Body split_reads ReadFailed)
                      sample_chat))
       = [''why?'', ''AB'', error_text]"
proof -
  have h: "trim (input sample_chat) \<noteq> [] \<and> \<not> isLoading_chat sample_chat"
    by code_simp
  have q: "quiet_after_done sample_parse (stream_lines split_reads)"
    by code_simp
  have e: "stream_events sample_parse split_reads
       = [ContentChunk ''A'', ContentChunk ''B'',
          RiskChunk \<lparr>level = Low, risk_description = ''grounded''\<rparr>]"
    by code_simp
  have l: "length (messages sample_chat) = 1"
    by code_simp
  have i: "input sample_chat = ''why?''"
    by code_simp
  note inst = content_reconstructs_answer[where parse=sample_parse and reads=split_reads
         and st=sample_chat and clock=sample_clock and ending=ReadFailed
         and sched=render_between_reads]
  from inst q have r: "received sample_parse [] split_reads = stream_events sample_parse split_reads"
    by blast
  from inst h
  have "drop (length (messages sample_chat))
          (texts (handleSubmit sample_parse render_between_reads sample_clock (Body split_reads ReadFailed) sample_chat))
          = [input sample_chat, content_deltas (received sample_parse [] split_reads)]
            @ (case ReadFailed of Done \<Rightarrow> [] | ReadFailed \<Rightarrow> [error_text])"
    by blast
  then have "drop 1 (texts (handleSubmit sample_parse render_between_reads sample_clock (Body split_reads ReadFailed)
                      sample_chat))
       = [''why?'', ''AB'', error_text]"
    unfolding l r e i by simp
  with h q e r show ?thesis by blast
qed

subsection \<open>Chat: citations\<close>

lemma render_part_cases:
  "(\<exists>s. render_part p = Paragraph s) \<or> (\<exists>c l. render_part p = CodeBlock c l)"
  by (simp add: render_part_def split: option.splits prod.splits)

lemma MessageContent_no_file_reference:
  "list_all (\<lambda>b. \<not> is_file_reference b) (MessageContent text)"
proof -
  have "\<not> is_file_reference (render_part p)" for p
    using render_part_cases[of p] by auto
  then show ?thesis by (simp add: MessageContent_def list_all_iff)
qed

lemma MessageContent_no_risk_analysis:
  "list_all (\<lambda>b. \<not> is_risk_analysis b) (MessageContent text)"
proof -
  have "\<not> is_risk_analysis (render_part p)" for p
    using render_part_cases[of p] by auto
  then show ?thesis by (simp add: MessageContent_def list_all_iff)
qed

lemma MessageBubble_no_citations:
  "citations m = None \<Longrightarrow> list_all (\<lambda>b. \<not> is_file_reference b) (MessageBubble m)"
  using MessageContent_no_file_reference[of "content m"]
  by (simp add: MessageBubble_def split: option.splits)

lemma MessageBubble_risk_last:
  "MessageBubble (m\<lparr>risk := Some r\<rparr>)
     = MessageBubble (m\<lparr>risk := None\<rparr>) @ [RiskAnalysis (level r) (risk_description r)]"
  by (simp add: MessageBubble_def)

lemma MessageBubble_without_risk:
  "list_all (\<lambda>b. \<not> is_risk_analysis b) (MessageBubble (m\<lparr>risk := None\<rparr>))"
  using MessageContent_no_risk_analysis[of "content m"]
  by (auto simp: MessageBubble_def list_all_iff split: option.splits)

lemma MessageBubble_starts_with_content:
  "take (length (MessageContent (content m))) (MessageBubble m) = MessageContent (content m)"
  by (simp add: MessageBubble_def)

lemma resolve_fields:
  "content (resolve st a) = content (objects st ! a)"
  "citations (resolve st a) = map_option (\<lambda>arr. arrays st ! arr) (citations (objects st ! a))"
  "risk (resolve st a) = risk (objects st ! a)"
  "role (resolve st a) = role (objects st ! a)"
  by (simp_all add: resolve_def Let_def)

lemma stream_turn_no_citations:
  assumes "list_all (\<lambda>c. \<not> is_citation c) (received parse [] reads)"
  shows "citations (stored (stream_turn parse sched now reads st)) = None"
    and "citations (shown (stream_turn parse sched now reads st)) = None"
proof -
  have tr: "tracks (begin_turn now st) (received parse [] reads) (stream_turn parse sched now reads st)"
    by (rule stream_turn_tracks)
  have b: "citations (stored (begin_turn now st)) = None"
    "citations (shown (begin_turn now st)) = None"
    by (simp_all add: begin_turn_shown begin_turn_stored)
  from tracksD(5)[OF tr assms] b
  show "citations (stored (stream_turn parse sched now reads st)) = None" by simp
  from tracksD(6)[OF tr assms b(2) b(1)]
  show "citations (shown (stream_turn parse sched now reads st)) = None" .
qed

lemma handleSubmit_no_citations:
  assumes nc: "list_all (\<lambda>c. \<not> is_citation c) (received parse [] reads)"
    and "trim (input st) \<noteq> []" and "\<not> isLoading_chat st"
  shows "citations (resolve (handleSubmit parse sched clock (Body reads ending) st)
                      (messages (handleSubmit parse sched clock (Body reads ending) st)
                         ! Suc (length (messages st)))) = None"
proof -
  let ?t = "stream_turn parse sched (assistant_now clock) reads (user_sent clock st)"
  obtain x where m: "messages (ui ?t) = messages st @ [length (objects st), x]"
    and s: "objects (ui ?t) ! x = shown ?t"
    and lx: "x < length (objects (ui ?t))"
    by (rule turn_texts)
  have c: "citations (objects (ui ?t) ! x) = None"
    by (simp add: s stream_turn_no_citations(2)[OF nc])
  show ?thesis
  proof (cases ending)
    case Done
    show ?thesis
      unfolding Done handleSubmit_Done[OF assms(2,3)]
      by (simp add: m c resolve_fields nth_append)
  next
    case ReadFailed
    show ?thesis
      unfolding ReadFailed handleSubmit_ReadFailed[OF assms(2,3)]
      using lx by (simp add: Let_def m c resolve_fields nth_append)
  qed
qed

lemma handleSubmit_messages_length:
  assumes "trim (input st) \<noteq> []" and "\<not> isLoading_chat st"
  shows "Suc (length (messages st)) < length (messages (handleSubmit parse sched clock (Body reads ending) st))"
proof -
  let ?t = "stream_turn parse sched (assistant_now clock) reads (user_sent clock st)"
  obtain x where m: "messages (ui ?t) = messages st @ [length (objects st), x]"
    by (rule turn_texts)
  show ?thesis
  proof (cases ending)
    case Done
    show ?thesis unfolding Done handleSubmit_Done[OF assms] by (simp add: m)
  next
    case ReadFailed
    show ?thesis unfolding ReadFailed handleSubmit_ReadFailed[OF assms] by (simp add: Let_def m)
  qed
qed

text \<open>
  Claim C6. For every turn in which no citation event is received, and every schedule of
  the updaters, the assistant message carries no citations (the list stays absent), in the
  object of the handler and in the message shown, and its rendering contains no file
  reference.
\<close>

theorem no_citation_events_no_file_reference:
  assumes "list_all (\<lambda>c. \<not> is_citation c) (received parse [] reads)"
    and "trim (input st) \<noteq> []" and "\<not> isLoading_chat st"
  shows "citations (stored (stream_turn parse sched now reads st)) = None
       \<and> citations (resolve (handleSubmit parse sched clock (Body reads ending) st)
                      (messages (handleSubmit parse sched clock (Body reads ending) st)
                         ! Suc (length (messages st)))) = None
       \<and> list_all (\<lambda>b. \<not> is_file_reference b)
            (rendered (handleSubmit parse sched clock (Body reads ending) st)
               ! Suc (length (messages st)))"
proof -
  let ?st' = "handleSubmit parse sched clock (Body reads ending) st"
  have 1: "citations (stored (stream_turn parse sched now reads st)) = None"
    by (rule stream_turn_no_citations(1)[OF assms(1)])
  have 2: "citations (resolve ?st' (messages ?st' ! Suc (length (messages st)))) = None"
    by (rule handleSubmit_no_citations[OF assms])
  have "rendered ?st' ! Suc (length (messages st))
          = MessageBubble (resolve ?st' (messages ?st' ! Suc (length (messages st))))"
    using handleSubmit_messages_length[OF assms(2,3), where parse=parse and sched=sched
            and clock=clock and reads=reads and ending=ending]
    by (simp add: rendered_def)
  with MessageBubble_no_citations[OF 2] 1 2 show ?thesis by simp
qed

text \<open>
  The theorem at the stream of two content events and a risk event, handled in one pass
  with the render after the turn: the message shown has the text and the risk block.
\<close>

theorem no_citation_events_no_file_reference_witness:
  "list_all (\<lambda>c. \<not> is_citation c) (received sample_parse [] split_reads)
   \<and> trim (input sample_chat) \<noteq> [] \<and> \<not> isLoading_chat sample_chat
   \<and> list_all (\<lambda>b. \<not> is_file_reference b)
        (rendered (handleSubmit sample_parse single_pass sample_clock (Body split_reads Done)
                     sample_chat) ! 2)
   \<and> rendered (handleSubmit sample_parse single_pass sample_clock (Body split_reads Done)
                 sample_chat) ! 2
        = [Paragraph ''AB'', RiskAnalysis Low ''grounded'']"
proof -
  have h: "list_all (\<lambda>c. \<not> is_citation c) (received sample_parse [] split_reads)"
    "trim (input sample_chat) \<noteq> []" "\<not> isLoading_chat sample_chat"
    by code_simp+
  have l: "Suc (length (messages sample_chat)) = 2"
    and e: "rendered (handleSubmit sample_parse single_pass sample_clock (Body split_reads Done)
                        sample_chat) ! 2
        = [Paragraph ''AB'', RiskAnalysis Low ''grounded'']"
    by code_simp+
  from no_citation_events_no_file_reference[OF h, where clock=sample_clock and ending=Done
         and sched=single_pass] l e h
  show ?thesis by simp
qed

subsection \<open>Chat: the risk event\<close>

lemma stored_on_risk:
  "stored (on_risk r t)
     = (if assistantMessage t < length (objects (ui t)) then (stored t)\<lparr>risk := Some r\<rparr>
        else stored t)"
  by (simp add: stored_def on_risk_fields modify_def)

text \<open>
  Processing a risk event sets the risk field of the object behind \<open>assistantMessage\<close>
  and nothing else: its text and its citations, every other object, the citation arrays,
  the messages of the state and the buffer are unchanged. A message with a risk renders as
  the same message without the risk followed by one risk block; the rendering without the
  risk has no risk block and begins with the blocks of the text.
\<close>

theorem risk_event_frame:
  "dispatch sched (RiskChunk r) t = Inr (on_risk r t)
   \<and> content (stored (on_risk r t)) = content (stored t)
   \<and> citations (stored (on_risk r t)) = citations (stored t)
   \<and> (assistantMessage t < length (objects (ui t)) \<longrightarrow> risk (stored (on_risk r t)) = Some r)
   \<and> (\<forall>a. a \<noteq> assistantMessage t \<longrightarrow> objects (ui (on_risk r t)) ! a = objects (ui t) ! a)
   \<and> length (objects (ui (on_risk r t))) = length (objects (ui t))
   \<and> arrays (ui (on_risk r t)) = arrays (ui t)
   \<and> messages (ui (on_risk r t)) = messages (ui t)
   \<and> buffer (on_risk r t) = buffer t
   \<and> (\<forall>a. content (resolve (ui (on_risk r t)) a) = content (resolve (ui t) a)
          \<and> citations (resolve (ui (on_risk r t)) a) = citations (resolve (ui t) a))
   \<and> MessageBubble (m\<lparr>risk := Some r\<rparr>)
        = MessageBubble (m\<lparr>risk := None\<rparr>) @ [RiskAnalysis (level r) (risk_description r)]
   \<and> list_all (\<lambda>b. \<not> is_risk_analysis b) (MessageBubble (m\<lparr>risk := None\<rparr>))
   \<and> take (length (MessageContent (content m))) (MessageBubble m) = MessageContent (content m)"
proof -
  have 1: "dispatch sched (RiskChunk r) t = Inr (on_risk r t)" by simp
  have 2: "content (stored (on_risk r t)) = content (stored t)"
    and 3: "citations (stored (on_risk r t)) = citations (stored t)"
    and 4: "assistantMessage t < length (objects (ui t)) \<longrightarrow> risk (stored (on_risk r t)) = Some r"
    by (simp_all add: stored_on_risk)
  have 5: "\<forall>a. a \<noteq> assistantMessage t \<longrightarrow> objects (ui (on_risk r t)) ! a = objects (ui t) ! a"
    by (simp add: on_risk_fields modify_nth_other)
  have 6: "length (objects (ui (on_risk r t))) = length (objects (ui t))"
    and 7: "arrays (ui (on_risk r t)) = arrays (ui t)"
    and 8: "messages (ui (on_risk r t)) = messages (ui t)"
    and 9: "buffer (on_risk r t) = buffer t"
    by (simp_all add: on_risk_fields)
  have obj: "content (objects (ui (on_risk r t)) ! a) = content (objects (ui t) ! a)
           \<and> citations (objects (ui (on_risk r t)) ! a) = citations (objects (ui t) ! a)" for a
    by (simp add: on_risk_fields modify_def nth_list_update)
  have 10: "\<forall>a. content (resolve (ui (on_risk r t)) a) = content (resolve (ui t) a)
          \<and> citations (resolve (ui (on_risk r t)) a) = citations (resolve (ui t) a)"
    by (simp add: resolve_fields obj 7)
  note 11 = MessageBubble_risk_last[where m=m and r=r]
  note 12 = MessageBubble_without_risk[where m=m]
  note 13 = MessageBubble_starts_with_content[where m=m]
  from 1 2 3 4 5 6 7 8 9 10 11 12 13 show ?thesis by blast
qed

text \<open>
  The same at a turn that has received a citation and a content event, and at a message
  with a code block and a citation.
\<close>

theorem risk_event_frame_witness:
  "assistantMessage sample_turn < length (objects (ui sample_turn))
   \<and> 0 \<noteq> assistantMessage sample_turn
   \<and> content (stored (on_risk sample_risk sample_turn)) = ''A''
   \<and> risk (stored sample_turn) = None
   \<and> risk (stored (on_risk sample_risk sample_turn)) = Some sample_risk
   \<and> objects (ui (on_risk sample_risk sample_turn)) ! 0 = objects (ui sample_turn) ! 0
   \<and> MessageBubble (sample_message\<lparr>risk := Some sample_risk\<rparr>)
       = [Paragraph ''see'', CodeBlock ''x = 1'' ''py'', Paragraph [], FileReference ''a.py'' ''1-9'',
          RiskAnalysis Low ''grounded'']"
proof -
  have v: "assistantMessage sample_turn < length (objects (ui sample_turn))"
    and z: "0 \<noteq> assistantMessage sample_turn"
    by code_simp+
  have s: "stored sample_turn
             = \<lparr>msg_id = ''5'', role = Assistant, content = ''A'', citations = Some 0,
                risk = None, timestamp = 4\<rparr>"
    by code_simp
  have b: "MessageBubble (sample_message\<lparr>risk := None\<rparr>)
             = [Paragraph ''see'', CodeBlock ''x = 1'' ''py'', Paragraph [], FileReference ''a.py'' ''1-9'']"
    by code_simp
  from risk_event_frame[where r=sample_risk and t=sample_turn and m=sample_message] v z s b
  show ?thesis by (simp add: sample_risk_def)
qed

text \<open>
  Whether a risk that follows a content event is shown depends on the schedule. When the
  two events are handled in one pass, with the content updater still queued, the updater
  copies the message with its risk, and the risk block is shown.
\<close>

lemma risk_event_displayed_in_single_pass:
  "rendered (handleSubmit sample_parse single_pass sample_clock (Body content_then_risk Done)
               sample_chat)
     = [[Paragraph ''Welcome''], [Paragraph ''why?''],
        [Paragraph ''A'', RiskAnalysis Low ''grounded'']]"
  by code_simp

text \<open>
  Claim C7. The claim says that the risk verdict is displayed as a block after the message
  content. The \<open>risk\<close> branch assigns the field of \<open>assistantMessage\<close> and, unlike
  the \<open>content\<close> branch, does not call \<open>setMessages\<close>. Once the updater of a content
  event has run, the state refers to a copy of the message, so a risk event that is
  handled after it changes the handler's object only: the message shown has no risk and
  renders without a risk block. This is so when the updater runs at its call, and when
  the component is rendered between the read with the content event and the read with the
  risk event.
\<close>

theorem risk_event_not_displayed:
  "risk (objects (handleSubmit sample_parse updaters_at_call sample_clock
                    (Body content_then_risk Done) sample_chat) ! 2) = Some sample_risk
   \<and> messages (handleSubmit sample_parse updaters_at_call sample_clock
                 (Body content_then_risk Done) sample_chat) = [0, 1, 3]
   \<and> risk (resolve (handleSubmit sample_parse updaters_at_call sample_clock
                      (Body content_then_risk Done) sample_chat) 3) = None
   \<and> rendered (handleSubmit sample_parse updaters_at_call sample_clock
                 (Body content_then_risk Done) sample_chat)
       = [[Paragraph ''Welcome''], [Paragraph ''why?''], [Paragraph ''A'']]
   \<and> risk (objects (handleSubmit sample_parse render_between_reads sample_clock
                      (Body content_then_risk Done) sample_chat) ! 2) = Some sample_risk
   \<and> messages (handleSubmit sample_parse render_between_reads sample_clock
                 (Body content_then_risk Done) sample_chat) = [0, 1, 3]
   \<and> risk (resolve (handleSubmit sample_parse render_between_reads sample_clock
                      (Body content_then_risk Done) sample_chat) 3) = None
   \<and> rendered (handleSubmit sample_parse render_between_reads sample_clock
                 (Body content_then_risk Done) sample_chat)
       = [[Paragraph ''Welcome''], [Paragraph ''why?''], [Paragraph ''A'']]"
  by code_simp

subsection \<open>Chat: the error event and the sentinel\<close>

text \<open>
  An \<open>error\<close> event is logged and the loop over the lines goes on with the next line.
\<close>

lemma error_chunk_only_logged:
  "parse d = Some (ErrorChunk msg) \<Longrightarrow>
     try_chunk parse sched d t
       = t\<lparr>ui := console_error ''Error parsing chunk:'' (Error msg) (ui t)\<rparr>"
  by (simp add: try_chunk_def)

lemma error_line_continues:
  "parse d = Some (ErrorChunk msg) \<Longrightarrow> d \<noteq> ''[DONE]'' \<Longrightarrow>
     process_lines parse sched ((''data: '' @ d) # rest) t
       = process_lines parse sched rest
           (t\<lparr>ui := console_error ''Error parsing chunk:'' (Error msg) (ui t)\<rparr>)"
  by (simp add: try_chunk_def)

text \<open>
  Claim C1. The claim says that an \<open>error\<close> event ends the turn and that the turn then shows a
  failure message. The handler throws inside the inner \<open>try\<close>, whose \<open>catch\<close> logs and
  continues: on a stream with an error event followed by a content event, the content
  is appended and shown, the error goes to the console only, and no failure message is
  added. A response that is not ok, in contrast, does add the failure message. The
  schedule of the updaters makes no difference.
\<close>

theorem error_event_not_terminal:
  "texts (handleSubmit sample_parse updaters_at_call sample_clock
            (Body error_then_content Done) sample_chat)
     = [''Welcome'', ''why?'', ''A'']
   \<and> console (handleSubmit sample_parse updaters_at_call sample_clock
                (Body error_then_content Done) sample_chat)
     = [(''Error parsing chunk:'', Error ''boom'')]
   \<and> texts (handleSubmit sample_parse updaters_at_call sample_clock NotOk sample_chat)
     = [''Welcome'', ''why?'', error_text]
   \<and> texts (handleSubmit sample_parse render_between_reads sample_clock
              (Body error_then_content Done) sample_chat)
     = [''Welcome'', ''why?'', ''A'']
   \<and> console (handleSubmit sample_parse render_between_reads sample_clock
                (Body error_then_content Done) sample_chat)
     = [(''Error parsing chunk:'', Error ''boom'')]
   \<and> texts (handleSubmit sample_parse single_pass sample_clock
              (Body error_then_content Done) sample_chat)
     = [''Welcome'', ''why?'', ''A'']
   \<and> console (handleSubmit sample_parse single_pass sample_clock
                (Body error_then_content Done) sample_chat)
     = [(''Error parsing chunk:'', Error ''boom'')]"
  by code_simp

text \<open>
  The sentinel ends the loop over the lines of its read; the loop over the reads goes on.
\<close>

lemma done_line_breaks: "process_lines parse sched (''data: [DONE]'' # rest) t = t"
  by simp

lemma split_done_line: "split_char newline (data_line ''[DONE]'') = [''data: [DONE]'', []]"
  by (simp add: data_line_def newline_def)

lemma done_read_continues:
  "\<not> render_before_read sched (reads_done t) \<Longrightarrow>
     read_loop parse sched (data_line ''[DONE]'' # later) (t\<lparr>buffer := []\<rparr>)
       = read_loop parse sched later (t\<lparr>buffer := [], reads_done := reads_done t + 1\<rparr>)"
  by (simp add: split_done_line)

text \<open>
  Claim C4. The claim says that nothing is processed after the sentinel. The \<open>break\<close> leaves the
  loop over the lines of the current read only: a content event that arrives in a later
  read is processed, one that arrives in the same read is skipped. The schedule of the
  updaters makes no difference.
\<close>

theorem done_sentinel_not_terminal:
  "texts (handleSubmit sample_parse updaters_at_call sample_clock
            (Body done_then_content Done) sample_chat)
     = [''Welcome'', ''why?'', ''A'']
   \<and> texts (handleSubmit sample_parse updaters_at_call sample_clock
              (Body done_and_content_together Done) sample_chat)
     = [''Welcome'', ''why?'', [] ]
   \<and> texts (handleSubmit sample_parse render_between_reads sample_clock
              (Body done_then_content Done) sample_chat)
     = [''Welcome'', ''why?'', ''A'']
   \<and> texts (handleSubmit sample_parse single_pass sample_clock
              (Body done_then_content Done) sample_chat)
     = [''Welcome'', ''why?'', ''A'']"
  by code_simp

end
